theory Spec2Isabelle
  imports Complex_Main "HOL-Library.Multiset"
begin

section \<open>Text: Python strings, whitespace and slices\<close>

text \<open>
  A Python \<open>str\<close> is a sequence of code points and \<open>len\<close> counts them. The model is
  \<open>string\<close> with one \<open>char\<close> per code point, which covers the code points below 256.
  \<open>isspace\<close> is \<open>str.isspace\<close> on that range: the characters that \<open>str.strip()\<close>,
  \<open>str.split()\<close> and the regular expression class \<open>\s\<close> treat as whitespace.
\<close>

definition isspace :: "char \<Rightarrow> bool" where
  "isspace c = ((of_char c :: nat) \<in> {9, 10, 11, 12, 13, 28, 29, 30, 31, 32, 133, 160})"

definition strip :: "string \<Rightarrow> string" where
  "strip s = rev (dropWhile isspace (rev (dropWhile isspace s)))"

text \<open>
  \<open>text[i:j]\<close>: a negative bound counts from the end, and both bounds are clamped to the
  length, so a slice never raises.
\<close>

definition slice_index :: "int \<Rightarrow> nat \<Rightarrow> nat" where
  "slice_index i n = (if i < 0 then nat (max (i + int n) 0) else min (nat i) n)"

definition py_slice :: "'a list \<Rightarrow> int \<Rightarrow> int \<Rightarrow> 'a list" where
  "py_slice xs i j =
     (let lo = slice_index i (length xs); hi = slice_index j (length xs)
      in take (hi - lo) (drop lo xs))"

section \<open>Segmenter: fixed-size strategy (index_documents.py)\<close>

text \<open>
  The \<open>while start < text_length\<close> loop of \<open>chunk_fixed_size\<close>. Nothing in the source
  bounds the number of iterations, so the loop is a partial function: \<open>None\<close> is a run
  that never returns.
\<close>

partial_function (option) chunk_fixed_loop ::
  "string \<Rightarrow> int \<Rightarrow> int \<Rightarrow> int \<Rightarrow> string list \<Rightarrow> string list option" where
  "chunk_fixed_loop text chunk_size overlap start chunks =
     (if start < int (length text) then
        (let endp = start + chunk_size;
             chunk = strip (py_slice text start endp);
             chunks' = (if chunk \<noteq> [] then chunks @ [chunk] else chunks);
             start' = endp - overlap;
             start'' = (if start' < 0 then 0 else start')
         in chunk_fixed_loop text chunk_size overlap start'' chunks')
      else Some chunks)"

definition chunk_fixed_size :: "string \<Rightarrow> int \<Rightarrow> int \<Rightarrow> string list option" where
  "chunk_fixed_size text chunk_size overlap = chunk_fixed_loop text chunk_size overlap 0 []"

section \<open>Segmenter: sentence-aware strategy (index_documents.py)\<close>

text \<open>
  \<open>text.split()\<close>: the maximal runs of non-whitespace characters, in order; never an
  empty word. \<open>cur\<close> is the word being read.
\<close>

fun split_words :: "string \<Rightarrow> string \<Rightarrow> string list" where
  "split_words cur [] = (if cur = [] then [] else [cur])"
| "split_words cur (c # cs) =
     (if isspace c then (if cur = [] then split_words [] cs else cur # split_words [] cs)
      else split_words (cur @ [c]) cs)"

definition py_split :: "string \<Rightarrow> string list" where
  "py_split s = split_words [] s"

fun py_join :: "string \<Rightarrow> string list \<Rightarrow> string" where
  "py_join sep [] = []"
| "py_join sep [w] = w"
| "py_join sep (w # ws) = w @ sep @ py_join sep ws"

text \<open>
  \<open>re.split(r'(?<=[.!?])\s+', cleaned)\<close>: a separator is a maximal run of whitespace
  whose preceding character is one of \<open>. ! ?\<close>; the pieces between separators are
  returned, the last one even when it is empty. \<open>cur\<close> is the piece being read: its last
  character is the character before the scanning position, except right after a
  separator, where that character is whitespace and no separator can start.
\<close>

definition sentence_end :: "char \<Rightarrow> bool" where
  "sentence_end c = (c = CHR ''.'' \<or> c = CHR ''!'' \<or> c = CHR ''?'')"

function re_split :: "string \<Rightarrow> string \<Rightarrow> string list" where
  "re_split cur [] = [cur]"
| "re_split cur (c # cs) =
     (if isspace c \<and> cur \<noteq> [] \<and> sentence_end (last cur)
      then cur # re_split [] (dropWhile isspace cs)
      else re_split (cur @ [c]) cs)"
  by pat_completeness auto
termination
  by (relation "measure (\<lambda>(cur, s). length s)") (auto simp: length_dropWhile_le less_Suc_eq_le)

datatype py_error = ValueError | ZeroDivisionError | TypeError | OverflowError | IndexError

text \<open>
  \<open>range(0, n, step)\<close>: \<open>0, step, 2 * step, ...\<close> below \<open>n\<close> for a positive step, empty
  for a negative one (here \<open>n \<ge> 0\<close>), and a \<open>ValueError\<close> for step 0.
\<close>

definition py_range0 :: "nat \<Rightarrow> int \<Rightarrow> py_error + int list" where
  "py_range0 n step =
     (if step = 0 then Inl ValueError
      else if step < 0 then Inr []
      else Inr (map (\<lambda>k. int k * step) [0 ..< nat ((int n + step - 1) div step)]))"

text \<open>The inner \<open>for i in range(0, len(s), max_chars)\<close> loop: the kept slices of \<open>s\<close>.\<close>

definition force_split :: "string \<Rightarrow> int \<Rightarrow> py_error + string list" where
  "force_split s max_chars =
     (case py_range0 (length s) max_chars of
        Inl e \<Rightarrow> Inl e
      | Inr starts \<Rightarrow>
          Inr (filter (\<lambda>part. part \<noteq> [])
                 (map (\<lambda>i. strip (py_slice s i (i + max_chars))) starts)))"

text \<open>
  One iteration of \<open>for s in sentences\<close> on the pair \<open>(chunks, current)\<close>, and the loop.
\<close>

definition pack_step ::
  "int \<Rightarrow> string \<Rightarrow> string list \<times> string \<Rightarrow> py_error + string list \<times> string" where
  "pack_step max_chars s0 st =
     (let chunks = fst st; current = snd st; s = strip s0 in
      if s = [] then Inr (chunks, current)
      else if int (length s) > max_chars then
        (let chunks' = (if current \<noteq> [] then chunks @ [strip current] else chunks) in
         case force_split s max_chars of
           Inl e \<Rightarrow> Inl e
         | Inr parts \<Rightarrow> Inr (chunks' @ parts, []))
      else if current \<noteq> [] \<and> int (length current) + 1 + int (length s) > max_chars then
        Inr (chunks @ [strip current], s)
      else
        Inr (chunks, if current \<noteq> [] then strip (current @ '' '' @ s) else s))"

fun pack_loop ::
  "int \<Rightarrow> string list \<Rightarrow> string list \<times> string \<Rightarrow> py_error + string list \<times> string" where
  "pack_loop max_chars [] st = Inr st"
| "pack_loop max_chars (s # ss) st =
     (case pack_step max_chars s st of
        Inl e \<Rightarrow> Inl e
      | Inr st' \<Rightarrow> pack_loop max_chars ss st')"

definition sentences_of :: "string \<Rightarrow> string list" where
  "sentences_of cleaned = re_split [] cleaned"

definition chunk_by_sentences :: "string \<Rightarrow> int \<Rightarrow> py_error + string list" where
  "chunk_by_sentences text max_chars =
     (let cleaned = py_join '' '' (py_split text) in
      if cleaned = [] then Inr []
      else
        (case pack_loop max_chars (sentences_of cleaned) ([], []) of
           Inl e \<Rightarrow> Inl e
         | Inr st \<Rightarrow> Inr (if snd st \<noteq> [] then fst st @ [strip (snd st)] else fst st)))"

section \<open>Floats and vectors\<close>

text \<open>
  The value of a Python \<open>float\<close>: a finite number, an infinity or NaN (the sign of zero
  is not kept). Comparisons of floats are exact; every comparison with NaN is false.
\<close>

datatype pyfloat = Finite real | PosInf | NegInf | NaN

fun flt :: "pyfloat \<Rightarrow> pyfloat \<Rightarrow> bool" where
  "flt (Finite x) (Finite y) = (x < y)"
| "flt NaN _ = False"
| "flt _ NaN = False"
| "flt _ NegInf = False"
| "flt NegInf _ = True"
| "flt PosInf _ = False"
| "flt _ PosInf = True"

definition fge :: "pyfloat \<Rightarrow> pyfloat \<Rightarrow> bool" where
  "fge x y = (x \<noteq> NaN \<and> y \<noteq> NaN \<and> \<not> flt x y)"

text \<open>
  The arithmetic of floats rounds, overflows and underflows. It is not fixed here: the
  four operations that \<open>cosine_similarity\<close> uses are parameters, \<open>x + y\<close> and \<open>x * y\<close>,
  which never raise, and \<open>math.sqrt(x)\<close> and \<open>x / y\<close>, which may.
\<close>

record arith =
  add_f :: "pyfloat \<Rightarrow> pyfloat \<Rightarrow> pyfloat"
  mul_f :: "pyfloat \<Rightarrow> pyfloat \<Rightarrow> pyfloat"
  sqrt_f :: "pyfloat \<Rightarrow> py_error + pyfloat"
  div_f :: "pyfloat \<Rightarrow> pyfloat \<Rightarrow> py_error + pyfloat"

text \<open>
  \<open>cosine_similarity\<close> (search.py): the \<open>for x, y in zip(a, b)\<close> loop on the triple
  \<open>(dot, na, nb)\<close>, and the function. \<open>math.sqrt(na)\<close> is evaluated before
  \<open>math.sqrt(nb)\<close>, and the division only when \<open>denom != 0.0\<close>.
\<close>

fun cosine_loop_in ::
  "arith \<Rightarrow> (pyfloat \<times> pyfloat) list \<Rightarrow> pyfloat \<times> pyfloat \<times> pyfloat \<Rightarrow>
   pyfloat \<times> pyfloat \<times> pyfloat" where
  "cosine_loop_in A [] acc = acc"
| "cosine_loop_in A ((x, y) # ps) (dot, na, nb) =
     cosine_loop_in A ps
       (add_f A dot (mul_f A x y), add_f A na (mul_f A x x), add_f A nb (mul_f A y y))"

definition cosine_similarity_in ::
  "arith \<Rightarrow> pyfloat list \<Rightarrow> pyfloat list \<Rightarrow> py_error + pyfloat" where
  "cosine_similarity_in A a b =
     (if a = [] \<or> b = [] \<or> length a \<noteq> length b then Inr NegInf
      else
        (case cosine_loop_in A (zip a b) (Finite 0, Finite 0, Finite 0) of
           (dot, na, nb) \<Rightarrow>
             (case sqrt_f A na of
                Inl e \<Rightarrow> Inl e
              | Inr ra \<Rightarrow>
                  (case sqrt_f A nb of
                     Inl e \<Rightarrow> Inl e
                   | Inr rb \<Rightarrow>
                       (let denom = mul_f A ra rb in
                        if denom \<noteq> Finite 0 then div_f A dot denom else Inr NegInf)))))"

text \<open>
  The spec's \<open>dot(a, b)\<close> in a given arithmetic: the products summed from \<open>0.0\<close> on, in
  the order of the components; \<open>||a||\<close> is \<open>math.sqrt(dot(a, a))\<close>.
\<close>

definition dot_in :: "arith \<Rightarrow> pyfloat list \<Rightarrow> pyfloat list \<Rightarrow> pyfloat" where
  "dot_in A a b = foldl (\<lambda>acc (x, y). add_f A acc (mul_f A x y)) (Finite 0) (zip a b)"

text \<open>
  What the claims need of the arithmetic, and what Python's has: a square is never
  negative (it is zero, positive, \<open>inf\<close> or NaN), nor is a sum of two such values;
  \<open>math.sqrt\<close> raises on negative arguments only, and the division on a zero divisor
  only.
\<close>

fun nonneg :: "pyfloat \<Rightarrow> bool" where
  "nonneg (Finite x) = (0 \<le> x)"
| "nonneg NegInf = False"
| "nonneg PosInf = True"
| "nonneg NaN = True"

definition sound_arith :: "arith \<Rightarrow> bool" where
  "sound_arith A =
     ((\<forall>x. nonneg (mul_f A x x)) \<and>
      (\<forall>x y. nonneg x \<and> nonneg y \<longrightarrow> nonneg (add_f A x y)) \<and>
      (\<forall>x. nonneg x \<longrightarrow> (\<exists>r. sqrt_f A x = Inr r)) \<and>
      (\<forall>x y. y \<noteq> Finite 0 \<longrightarrow> (\<exists>q. div_f A x y = Inr q)))"

subsection \<open>The arithmetic without rounding\<close>

text \<open>
  One arithmetic of this kind: the special values follow IEEE 754 as Python exposes it,
  and finite values are computed exactly, as on the reals. It agrees with Python's
  wherever Python's result is exact, and it is the arithmetic of the concrete runs below.
\<close>

fun fadd :: "pyfloat \<Rightarrow> pyfloat \<Rightarrow> pyfloat" where
  "fadd (Finite x) (Finite y) = Finite (x + y)"
| "fadd NaN _ = NaN"
| "fadd _ NaN = NaN"
| "fadd PosInf NegInf = NaN"
| "fadd NegInf PosInf = NaN"
| "fadd PosInf _ = PosInf"
| "fadd _ PosInf = PosInf"
| "fadd NegInf _ = NegInf"
| "fadd _ NegInf = NegInf"

definition inf_times :: "bool \<Rightarrow> real \<Rightarrow> pyfloat" where
  \<comment> \<open>an infinity (positive when the flag is set) times a finite number\<close>
  "inf_times pos x =
     (if x = 0 then NaN else if (0 < x) = pos then PosInf else NegInf)"

fun fmul :: "pyfloat \<Rightarrow> pyfloat \<Rightarrow> pyfloat" where
  "fmul (Finite x) (Finite y) = Finite (x * y)"
| "fmul NaN _ = NaN"
| "fmul _ NaN = NaN"
| "fmul PosInf (Finite y) = inf_times True y"
| "fmul NegInf (Finite y) = inf_times False y"
| "fmul (Finite x) PosInf = inf_times True x"
| "fmul (Finite x) NegInf = inf_times False x"
| "fmul PosInf PosInf = PosInf"
| "fmul NegInf NegInf = PosInf"
| "fmul PosInf NegInf = NegInf"
| "fmul NegInf PosInf = NegInf"

text \<open>\<open>math.sqrt\<close>: a \<open>ValueError\<close> on a negative argument, NaN and \<open>inf\<close> pass through.\<close>

fun fsqrt :: "pyfloat \<Rightarrow> py_error + pyfloat" where
  "fsqrt (Finite x) = (if x < 0 then Inl ValueError else Inr (Finite (sqrt x)))"
| "fsqrt PosInf = Inr PosInf"
| "fsqrt NegInf = Inl ValueError"
| "fsqrt NaN = Inr NaN"

text \<open>\<open>x / y\<close> on floats: a \<open>ZeroDivisionError\<close> exactly when \<open>y\<close> is zero.\<close>

fun fdiv :: "pyfloat \<Rightarrow> pyfloat \<Rightarrow> py_error + pyfloat" where
  "fdiv x (Finite y) =
     (if y = 0 then Inl ZeroDivisionError
      else case x of
             Finite a \<Rightarrow> Inr (Finite (a / y))
           | PosInf \<Rightarrow> Inr (inf_times True y)
           | NegInf \<Rightarrow> Inr (inf_times False y)
           | NaN \<Rightarrow> Inr NaN)"
| "fdiv (Finite a) PosInf = Inr (Finite 0)"
| "fdiv (Finite a) NegInf = Inr (Finite 0)"
| "fdiv _ _ = Inr NaN"

definition exact_arith :: arith where
  "exact_arith = \<lparr>add_f = fadd, mul_f = fmul, sqrt_f = fsqrt, div_f = fdiv\<rparr>"

text \<open>\<open>cosine_similarity\<close> and its loop, written out in this arithmetic.\<close>

fun cosine_loop ::
  "(pyfloat \<times> pyfloat) list \<Rightarrow> pyfloat \<times> pyfloat \<times> pyfloat \<Rightarrow> pyfloat \<times> pyfloat \<times> pyfloat" where
  "cosine_loop [] acc = acc"
| "cosine_loop ((x, y) # ps) (dot, na, nb) =
     cosine_loop ps (fadd dot (fmul x y), fadd na (fmul x x), fadd nb (fmul y y))"

definition cosine_similarity :: "pyfloat list \<Rightarrow> pyfloat list \<Rightarrow> py_error + pyfloat" where
  "cosine_similarity a b =
     (if a = [] \<or> b = [] \<or> length a \<noteq> length b then Inr NegInf
      else
        (case cosine_loop (zip a b) (Finite 0, Finite 0, Finite 0) of
           (dot, na, nb) \<Rightarrow>
             (case fsqrt na of
                Inl e \<Rightarrow> Inl e
              | Inr ra \<Rightarrow>
                  (case fsqrt nb of
                     Inl e \<Rightarrow> Inl e
                   | Inr rb \<Rightarrow>
                       (let denom = fmul ra rb in
                        if denom \<noteq> Finite 0 then fdiv dot denom else Inr NegInf)))))"

text \<open>
  The spec's formula in this arithmetic: \<open>dot(a, b) / (||a|| * ||b||)\<close> with the sums
  taken over the components. \<open>the_float\<close> reads a result that is known not to raise.
\<close>

definition fsum :: "pyfloat list \<Rightarrow> pyfloat" where
  "fsum xs = foldr fadd xs (Finite 0)"

definition dot :: "pyfloat list \<Rightarrow> pyfloat list \<Rightarrow> pyfloat" where
  "dot a b = fsum (map (\<lambda>(x, y). fmul x y) (zip a b))"

definition the_float :: "py_error + pyfloat \<Rightarrow> pyfloat" where
  "the_float r = (case r of Inl e \<Rightarrow> NaN | Inr x \<Rightarrow> x)"

definition norm2 :: "pyfloat list \<Rightarrow> pyfloat" where
  "norm2 a = the_float (fsqrt (dot a a))"

definition cosine_spec :: "pyfloat list \<Rightarrow> pyfloat list \<Rightarrow> pyfloat" where
  "cosine_spec a b = the_float (fdiv (dot a b) (fmul (norm2 a) (norm2 b)))"

section \<open>Python values and the embedding client\<close>

text \<open>
  The values an embedding response or a \<open>jsonb\<close> column can hold. \<open>SQL NULL\<close> and an
  absent value are \<open>None\<close> of an option type where they occur.
\<close>

datatype pyval =
    PyNone
  | PyBool bool
  | PyInt int
  | PyFloat pyfloat
  | PyStr string
  | PyList "pyval list"
  | PyDict "(string \<times> pyval) list"

text \<open>
  \<open>float(x)\<close>. A float is returned as it is; a bool or an int is converted (an int of
  magnitude \<open>2^1024 - 2^970\<close> or more raises \<open>OverflowError\<close>); \<open>None\<close>, a list and a
  dict raise \<open>TypeError\<close>. Parsing a string is the builtin's own business: it is the
  parameter \<open>sf\<close>, with \<open>None\<close> for the strings that raise \<open>ValueError\<close>.
\<close>

fun py_float :: "(string \<Rightarrow> pyfloat option) \<Rightarrow> pyval \<Rightarrow> py_error + pyfloat" where
  "py_float sf (PyFloat f) = Inr f"
| "py_float sf (PyBool b) = Inr (Finite (if b then 1 else 0))"
| "py_float sf (PyInt i) =
     (if 2 ^ 1024 - 2 ^ 970 \<le> \<bar>i\<bar> then Inl OverflowError else Inr (Finite (of_int i)))"
| "py_float sf (PyStr s) = (case sf s of None \<Rightarrow> Inl ValueError | Some f \<Rightarrow> Inr f)"
| "py_float sf PyNone = Inl TypeError"
| "py_float sf (PyList xs) = Inl TypeError"
| "py_float sf (PyDict kvs) = Inl TypeError"

text \<open>\<open>[float(x) for x in vec]\<close>: the first element that raises ends the comprehension.\<close>

fun float_list :: "(string \<Rightarrow> pyfloat option) \<Rightarrow> pyval list \<Rightarrow> py_error + pyfloat list" where
  "float_list sf [] = Inr []"
| "float_list sf (x # xs) =
     (case py_float sf x of
        Inl e \<Rightarrow> Inl e
      | Inr f \<Rightarrow> (case float_list sf xs of Inl e \<Rightarrow> Inl e | Inr fs \<Rightarrow> Inr (f # fs)))"

text \<open>
  The response of \<open>client.models.embed_content\<close>: \<open>embeddings\<close> is the attribute
  \<open>resp.embeddings\<close> (\<open>None\<close> when Python's is \<open>None\<close>), each entry standing for its
  \<open>.values\<close> attribute. The client itself is a function from the text sent to either the
  message of the exception it raises or a response.
\<close>

datatype response = Response (embeddings: "pyval list option")

type_synonym client = "string \<Rightarrow> string + response"

text \<open>The \<open>RuntimeError\<close>s of embedder.py and search.py, one constructor per message.\<close>

datatype error =
    EmbedContentFailed string
  | UnexpectedResponse py_error
  | InvalidVector
  | NonNumericValues py_error
  | DbFetchFailed string
  | DbUpdateFailed int string
  | Uncaught py_error

definition first_values :: "response \<Rightarrow> py_error + pyval" where
  \<comment> \<open>\<open>resp.embeddings[0].values\<close>\<close>
  "first_values resp =
     (case embeddings resp of
        None \<Rightarrow> Inl TypeError
      | Some [] \<Rightarrow> Inl IndexError
      | Some (v # _) \<Rightarrow> Inr v)"

text \<open>
  \<open>embed_text\<close>, the same function in embedder.py and in search.py (they differ in a
  comment only).
\<close>

definition embed_text ::
  "(string \<Rightarrow> pyfloat option) \<Rightarrow> client \<Rightarrow> string \<Rightarrow> error + pyfloat list" where
  "embed_text sf cl txt =
     (case cl txt of
        Inl e \<Rightarrow> Inl (EmbedContentFailed e)
      | Inr resp \<Rightarrow>
          (case first_values resp of
             Inl e \<Rightarrow> Inl (UnexpectedResponse e)
           | Inr vec \<Rightarrow>
               (case vec of
                  PyList xs \<Rightarrow>
                    if xs = [] then Inl InvalidVector
                    else (case float_list sf xs of
                            Inl e \<Rightarrow> Inl (NonNumericValues e)
                          | Inr fs \<Rightarrow> Inr fs)
                | _ \<Rightarrow> Inl InvalidVector)))"

section \<open>The chunk store (db.py and the SQL of embedder.py, search.py)\<close>

text \<open>
  A row of \<open>document_chunks\<close>. \<open>chunk_text\<close> and \<open>embedding\<close> are nullable; the
  \<open>jsonb\<close> value \<open>'{}'\<close> is \<open>PyDict []\<close> and \<open>'[]'\<close> is \<open>PyList []\<close>. The table is
  the list of its rows.
\<close>

record chunk_row =
  chunk_id :: int
  chunk_text :: "string option"
  embedding :: "pyval option"
  filename :: string
  split_strategy :: string

definition missing_embedding :: "chunk_row \<Rightarrow> bool" where
  \<comment> \<open>\<open>embedding IS NULL OR embedding = '{}'::jsonb OR embedding = '[]'::jsonb\<close>\<close>
  "missing_embedding r =
     (embedding r = None \<or> embedding r = Some (PyDict []) \<or> embedding r = Some (PyList []))"

definition select_chunks_without_embedding :: "nat \<Rightarrow> chunk_row list \<Rightarrow> (int \<times> string option) list" where
  \<comment> \<open>the \<open>SELECT id, chunk_text ... ORDER BY id LIMIT %s\<close> of \<open>fetch_chunks_without_embedding\<close>\<close>
  "select_chunks_without_embedding limit tbl =
     take limit (map (\<lambda>r. (chunk_id r, chunk_text r))
                   (sort_key chunk_id (filter missing_embedding tbl)))"

definition select_chunks_with_embeddings :: "chunk_row list \<Rightarrow> chunk_row list" where
  \<comment> \<open>the \<open>SELECT ... WHERE embedding IS NOT NULL AND ... ORDER BY id\<close> of \<open>fetch_chunks_with_embeddings\<close>\<close>
  "select_chunks_with_embeddings tbl =
     sort_key chunk_id (filter (\<lambda>r. \<not> missing_embedding r) tbl)"

definition update_rows :: "int \<Rightarrow> pyfloat list \<Rightarrow> chunk_row list \<Rightarrow> chunk_row list" where
  \<comment> \<open>\<open>UPDATE document_chunks SET embedding = %s WHERE id = %s\<close> with \<open>Json(embedding)\<close>\<close>
  "update_rows cid vec tbl =
     map (\<lambda>r. if chunk_id r = cid then r\<lparr>embedding := Some (PyList (map PyFloat vec))\<rparr> else r) tbl"

text \<open>
  What the process runs in: the environment variable \<open>GEMINI_API_KEY\<close>, the builtin
  \<open>float\<close> on strings, the remote embedding client, and the failures of the database:
  \<open>db_fetch_error\<close> is the message of the exception a \<open>SELECT\<close> raises, if it raises,
  and \<open>db_update_error cid vec\<close> that of \<open>update_embedding(cid, vec)\<close>.
\<close>

record env =
  api_key :: "string option"
  str_float :: "string \<Rightarrow> pyfloat option"
  embed_content :: client
  db_fetch_error :: "string option"
  db_update_error :: "int \<Rightarrow> pyfloat list \<Rightarrow> string option"

definition fetch_chunks_without_embedding ::
  "env \<Rightarrow> nat \<Rightarrow> chunk_row list \<Rightarrow> error + (int \<times> string option) list" where
  "fetch_chunks_without_embedding ev limit tbl =
     (case db_fetch_error ev of
        Some e \<Rightarrow> Inl (DbFetchFailed e)
      | None \<Rightarrow> Inr (select_chunks_without_embedding limit tbl))"

definition update_embedding ::
  "env \<Rightarrow> int \<Rightarrow> pyfloat list \<Rightarrow> chunk_row list \<Rightarrow> string + chunk_row list" where
  "update_embedding ev cid vec tbl =
     (case db_update_error ev cid vec of
        Some e \<Rightarrow> Inl e
      | None \<Rightarrow> Inr (update_rows cid vec tbl))"

section \<open>Backfill (embedder.py, main)\<close>

text \<open>
  What \<open>main\<close> prints, one constructor per \<open>print\<close>, and what it does to the outside:
  the calls of the embedding client and of \<open>update_embedding\<close>, in order.
\<close>

datatype msg =
    MKeyLoaded bool
  | MMissingKey
  | MFound nat
  | MSkipped int
  | MUpdated int nat
  | MDone nat nat
  | MError error

datatype event = EmbedCall string | UpdateCall int "pyfloat list"

text \<open>
  The state of the \<open>for chunk_id, chunk_text in rows\<close> loop: the table, the lines
  printed and the calls made so far, and the two counters.
\<close>

record loop_state =
  tbl :: "chunk_row list"
  printed :: "msg list"
  calls :: "event list"
  updated :: nat
  skipped :: nat

definition blank_text :: "string option \<Rightarrow> bool" where
  \<comment> \<open>\<open>not chunk_text or not str(chunk_text).strip()\<close>\<close>
  "blank_text t = (case t of None \<Rightarrow> True | Some s \<Rightarrow> s = [] \<or> strip s = [])"

text \<open>
  The loop. An exception leaves the loop at once: the result is the state at the raise
  together with the error, and the rows after it are not looked at.
\<close>

fun backfill_loop ::
  "env \<Rightarrow> (int \<times> string option) list \<Rightarrow> loop_state \<Rightarrow> loop_state \<times> error option" where
  "backfill_loop ev [] st = (st, None)"
| "backfill_loop ev ((cid, ctext) # rows) st =
     (if blank_text ctext then
        backfill_loop ev rows
          (st\<lparr>printed := printed st @ [MSkipped cid], skipped := skipped st + 1\<rparr>)
      else
        (let txt = the ctext;
             st1 = st\<lparr>calls := calls st @ [EmbedCall txt]\<rparr>
         in case embed_text (str_float ev) (embed_content ev) txt of
              Inl e \<Rightarrow> (st1, Some e)
            | Inr vec \<Rightarrow>
                (let st2 = st1\<lparr>calls := calls st1 @ [UpdateCall cid vec]\<rparr>
                 in case update_embedding ev cid vec (tbl st2) of
                      Inl e \<Rightarrow> (st2, Some (DbUpdateFailed cid e))
                    | Inr tbl' \<Rightarrow>
                        backfill_loop ev rows
                          (st2\<lparr>tbl := tbl',
                               printed := printed st2 @ [MUpdated cid (length vec)],
                               updated := updated st2 + 1\<rparr>))))"

text \<open>
  A run of \<open>main\<close>: the exit status it returns, the lines it printed, the table it
  leaves and the calls it made.
\<close>

record run =
  exit_code :: int
  stdout :: "msg list"
  store :: "chunk_row list"
  trace :: "event list"

definition start_state :: "chunk_row list \<Rightarrow> nat \<Rightarrow> loop_state" where
  \<comment> \<open>the state before the loop: two lines printed, \<open>updated = 0\<close>, \<open>skipped = 0\<close>\<close>
  "start_state tbl0 n =
     \<lparr>tbl = tbl0, printed = [MKeyLoaded True, MFound n], calls = [], updated = 0, skipped = 0\<rparr>"

definition embedder_main :: "env \<Rightarrow> chunk_row list \<Rightarrow> run" where
  "embedder_main ev tbl0 =
     (if api_key ev = None \<or> api_key ev = Some [] then
        \<lparr>exit_code = 1, stdout = [MKeyLoaded False, MMissingKey], store = tbl0, trace = []\<rparr>
      else
        (case fetch_chunks_without_embedding ev 50 tbl0 of
           Inl e \<Rightarrow>
             \<lparr>exit_code = 1, stdout = [MKeyLoaded True, MError e], store = tbl0, trace = []\<rparr>
         | Inr rows \<Rightarrow>
             if rows = [] then
               \<lparr>exit_code = 0, stdout = [MKeyLoaded True, MFound (length rows)],
                store = tbl0, trace = []\<rparr>
             else
               (case backfill_loop ev rows (start_state tbl0 (length rows)) of
                  (st, Some e) \<Rightarrow>
                    \<lparr>exit_code = 1, stdout = printed st @ [MError e],
                     store = tbl st, trace = calls st\<rparr>
                | (st, None) \<Rightarrow>
                    \<lparr>exit_code = 0, stdout = printed st @ [MDone (updated st) (skipped st)],
                     store = tbl st, trace = calls st\<rparr>)))"

text \<open>
  The totals a run reports: the counters of its \<open>Done. Updated=... Skipped=...\<close> line,
  the only place where \<open>main\<close> gives them out.
\<close>

fun done_counts :: "msg list \<Rightarrow> (nat \<times> nat) option" where
  "done_counts [] = None"
| "done_counts (MDone u s # ms) = Some (u, s)"
| "done_counts (m # ms) = done_counts ms"

definition reported_counts :: "run \<Rightarrow> (nat \<times> nat) option" where
  "reported_counts r = done_counts (stdout r)"

text \<open>The chunks a run really updated and skipped: its \<open>Updated\<close> and \<open>Skipped\<close> lines.\<close>

fun is_updated :: "msg \<Rightarrow> bool" where
  "is_updated (MUpdated cid n) = True"
| "is_updated m = False"

fun is_skipped :: "msg \<Rightarrow> bool" where
  "is_skipped (MSkipped cid) = True"
| "is_skipped m = False"

definition updated_count :: "run \<Rightarrow> nat" where
  "updated_count r = length (filter is_updated (stdout r))"

definition skipped_count :: "run \<Rightarrow> nat" where
  "skipped_count r = length (filter is_skipped (stdout r))"

section \<open>Retrieval ranking (search.py, main)\<close>

text \<open>
  The stable descending order of a list by its keys: an insertion sort that compares
  with \<open><\<close> only, applied to the reversed list and reversed again, so that equal keys
  keep their original order.
\<close>

fun insort_lt :: "('a \<Rightarrow> pyfloat) \<Rightarrow> 'a \<Rightarrow> 'a list \<Rightarrow> 'a list" where
  "insort_lt key x [] = [x]"
| "insort_lt key x (y # ys) =
     (if flt (key y) (key x) then y # insort_lt key x ys else x # y # ys)"

definition sort_lt :: "('a \<Rightarrow> pyfloat) \<Rightarrow> 'a list \<Rightarrow> 'a list" where
  "sort_lt key xs = foldr (insort_lt key) xs []"

definition sort_reverse :: "('a \<Rightarrow> pyfloat) \<Rightarrow> 'a list \<Rightarrow> 'a list" where
  "sort_reverse key xs = rev (sort_lt key (rev xs))"

text \<open>
  \<open>scored.sort(key=lambda x: x[0], reverse=True)\<close>. \<open>list.sort\<close> is the interpreter's
  own algorithm, and it is a parameter \<open>srt\<close> here, a function from the list to the
  sorted list. What is known of it: it permutes the list, whatever the keys are, and
  when no key is NaN, so that \<open><\<close> orders the keys totally, it returns the stable
  descending order. With a NaN among the keys nothing more is known of the order it
  leaves.
\<close>

definition list_sort_spec :: "((pyfloat \<times> 'a) list \<Rightarrow> (pyfloat \<times> 'a) list) \<Rightarrow> bool" where
  "list_sort_spec srt =
     (\<forall>xs. mset (srt xs) = mset xs \<and>
           ((\<forall>x\<in>set xs. fst x \<noteq> NaN) \<longrightarrow> srt xs = sort_reverse fst xs))"

text \<open>
  The checks on one candidate: \<open>isinstance(emb, list)\<close>, \<open>len(emb) == 0\<close> and the
  conversion \<open>[float(x) for x in emb]\<close>; \<open>None\<close> is a candidate that is skipped.
\<close>

fun as_list :: "pyval option \<Rightarrow> pyval list option" where
  "as_list (Some (PyList xs)) = Some xs"
| "as_list v = None"

definition candidate_vector :: "(string \<Rightarrow> pyfloat option) \<Rightarrow> pyval option \<Rightarrow> pyfloat list option" where
  "candidate_vector sf emb =
     (case as_list emb of
        None \<Rightarrow> None
      | Some xs \<Rightarrow>
          if xs = [] then None
          else (case float_list sf xs of Inl e \<Rightarrow> None | Inr emb_vec \<Rightarrow> Some emb_vec))"

text \<open>The \<open>for c in chunks\<close> loop on the pair \<open>(scored, skipped)\<close>.\<close>

fun score_loop ::
  "arith \<Rightarrow> (string \<Rightarrow> pyfloat option) \<Rightarrow> pyfloat list \<Rightarrow> chunk_row list \<Rightarrow>
   (pyfloat \<times> chunk_row) list \<times> nat \<Rightarrow> py_error + (pyfloat \<times> chunk_row) list \<times> nat" where
  "score_loop A sf query_emb [] acc = Inr acc"
| "score_loop A sf query_emb (c # cs) (scored, nskipped) =
     (case candidate_vector sf (embedding c) of
        None \<Rightarrow> score_loop A sf query_emb cs (scored, nskipped + 1)
      | Some emb_vec \<Rightarrow>
          (case cosine_similarity_in A query_emb emb_vec of
             Inl e \<Rightarrow> Inl e
           | Inr score \<Rightarrow> score_loop A sf query_emb cs (scored @ [(score, c)], nskipped)))"

text \<open>
  \<open>main\<close> from the fetched chunks on: the rows it prints, in order, with their scores,
  and the number of skipped candidates. With no chunk at all it returns before scoring.
\<close>

definition rank_chunks ::
  "arith \<Rightarrow> ((pyfloat \<times> chunk_row) list \<Rightarrow> (pyfloat \<times> chunk_row) list) \<Rightarrow>
   (string \<Rightarrow> pyfloat option) \<Rightarrow> pyfloat list \<Rightarrow> chunk_row list \<Rightarrow> int \<Rightarrow>
   py_error + (pyfloat \<times> chunk_row) list \<times> nat" where
  "rank_chunks A srt sf query_emb chunks top_k =
     (if chunks = [] then Inr ([], 0)
      else
        (case score_loop A sf query_emb chunks ([], 0) of
           Inl e \<Rightarrow> Inl e
         | Inr (scored, nskipped) \<Rightarrow> Inr (py_slice (srt scored) 0 top_k, nskipped)))"

text \<open>
  The notions the ranking claims are stated with: a candidate is validly embedded when
  it passes the checks, and a list of scores is descending when each score is \<open>>=\<close> the
  next ones.
\<close>

definition valid_embedding :: "(string \<Rightarrow> pyfloat option) \<Rightarrow> chunk_row \<Rightarrow> bool" where
  "valid_embedding sf c = (candidate_vector sf (embedding c) \<noteq> None)"

definition descending :: "pyfloat list \<Rightarrow> bool" where
  "descending ss = sorted_wrt fge ss"

section \<open>Notions used in the statements and proofs\<close>

text \<open>
  A chunk as the sentence strategy promises it, the invariant of its loop on the pair
  \<open>(chunks, current)\<close>, and a chunk that is already emitted or still the accumulator.
\<close>

definition good_chunk :: "int \<Rightarrow> string \<Rightarrow> bool" where
  "good_chunk m c = (strip c = c \<and> c \<noteq> [] \<and> int (length c) \<le> m)"

definition pack_inv :: "int \<Rightarrow> string list \<times> string \<Rightarrow> bool" where
  "pack_inv m st =
     ((\<forall>c\<in>set (fst st). good_chunk m c) \<and> (snd st = [] \<or> good_chunk m (snd st)))"

definition holds_chunk :: "string \<Rightarrow> string list \<times> string \<Rightarrow> bool" where
  "holds_chunk c st = (c \<in> set (fst st) \<or> snd st = c)"

text \<open>The errors that stand for a failed embedding.\<close>

fun embedding_failure :: "error \<Rightarrow> bool" where
  "embedding_failure (EmbedContentFailed e) = True"
| "embedding_failure (UnexpectedResponse e) = True"
| "embedding_failure InvalidVector = True"
| "embedding_failure (NonNumericValues e) = True"
| "embedding_failure e = False"

text \<open>
  The counters of the backfill loop agree with the lines printed so far, and no totals
  line is among them; the ids of the rows that still lack an embedding.
\<close>

definition counters_ok :: "loop_state \<Rightarrow> bool" where
  "counters_ok st =
     (updated st = length (filter is_updated (printed st)) \<and>
      skipped st = length (filter is_skipped (printed st)) \<and>
      done_counts (printed st) = None)"

definition missing_ids :: "chunk_row list \<Rightarrow> int set" where
  "missing_ids t = chunk_id ` {r \<in> set t. missing_embedding r}"

text \<open>
  The validly embedded candidates in input order, each with its score: what the scoring
  loop collects before the sort.
\<close>

definition scored_candidates ::
  "arith \<Rightarrow> (string \<Rightarrow> pyfloat option) \<Rightarrow> pyfloat list \<Rightarrow> chunk_row list \<Rightarrow>
   (pyfloat \<times> chunk_row) list" where
  "scored_candidates A sf q cs =
     List.map_filter
       (\<lambda>c. map_option (\<lambda>v. (the_float (cosine_similarity_in A q v), c))
              (candidate_vector sf (embedding c))) cs"

subsection \<open>Concrete runs\<close>

text \<open>
  A table of two chunks as \<open>insert_chunk\<close> stores them (embedding \<open>'{}'\<close>), a client
  that answers every text with the vector \<open>[1.0, 0.0]\<close>, a database whose update of
  chunk 2 fails, and one that works.
\<close>

definition demo_client :: client where
  "demo_client t = Inr (Response (Some [PyList [PyFloat (Finite 1), PyFloat (Finite 0)]]))"

definition demo_tbl :: "chunk_row list" where
  "demo_tbl =
     [\<lparr>chunk_id = 1, chunk_text = Some ''first chunk'', embedding = Some (PyDict []),
       filename = ''a.pdf'', split_strategy = ''fixed_size''\<rparr>,
      \<lparr>chunk_id = 2, chunk_text = Some ''second chunk'', embedding = Some (PyDict []),
       filename = ''a.pdf'', split_strategy = ''fixed_size''\<rparr>]"

definition failing_env :: env where
  "failing_env =
     \<lparr>api_key = Some ''key'', str_float = (\<lambda>s. None), embed_content = demo_client,
      db_fetch_error = None,
      db_update_error = (\<lambda>cid vec. if cid = 2 then Some ''connection lost'' else None)\<rparr>"

definition working_env :: env where
  "working_env =
     \<lparr>api_key = Some ''key'', str_float = (\<lambda>s. None), embed_content = demo_client,
      db_fetch_error = None, db_update_error = (\<lambda>cid vec. None)\<rparr>"

definition demo_row :: "int \<Rightarrow> pyval \<Rightarrow> chunk_row" where
  "demo_row i emb =
     \<lparr>chunk_id = i, chunk_text = Some ''some text'', embedding = Some emb,
      filename = ''a.pdf'', split_strategy = ''fixed_size''\<rparr>"

lemmas demo_defs = demo_client_def demo_tbl_def failing_env_def working_env_def

lemmas run_defs = embedder_main_def fetch_chunks_without_embedding_def
  select_chunks_without_embedding_def missing_embedding_def start_state_def blank_text_def
  embed_text_def first_values_def update_embedding_def update_rows_def strip_def isspace_def
  reported_counts_def updated_count_def skipped_count_def Let_def

lemmas rank_defs = rank_chunks_def candidate_vector_def cosine_similarity_in_def
  exact_arith_def sort_reverse_def sort_lt_def py_slice_def slice_index_def demo_row_def
  Let_def inf_times_def

lemmas sentence_defs = chunk_by_sentences_def sentences_of_def py_split_def pack_step_def
  force_split_def py_range0_def py_slice_def slice_index_def strip_def isspace_def
  sentence_end_def Let_def upt_rec

section \<open>Fixed-size chunks: termination and the example\<close>

lemma chunk_fixed_loop_no_result:
  assumes "chunk_fixed_loop text chunk_size overlap start chunks = Some y"
  shows "\<not> (0 \<le> start \<and> start < int (length text) \<and> chunk_size \<le> overlap)"
proof (rule chunk_fixed_loop.raw_induct
    [where P = "\<lambda>t c ov s cs y. \<not> (0 \<le> s \<and> s < int (length t) \<and> c \<le> ov)", OF _ assms])
  fix f :: "string \<Rightarrow> int \<Rightarrow> int \<Rightarrow> int \<Rightarrow> string list \<Rightarrow> string list option"
  fix t c ov s cs r
  assume IH: "\<And>t c ov s cs y. f t c ov s cs = Some y \<Longrightarrow>
                \<not> (0 \<le> s \<and> s < int (length t) \<and> c \<le> ov)"
  assume eq: "(if s < int (length t) then
        (let endp = s + c;
             chunk = strip (py_slice t s endp);
             chunks' = (if chunk \<noteq> [] then cs @ [chunk] else cs);
             start' = endp - ov;
             start'' = (if start' < 0 then 0 else start')
         in f t c ov start'' chunks')
      else Some cs) = Some r"
  show "\<not> (0 \<le> s \<and> s < int (length t) \<and> c \<le> ov)"
  proof
    assume h: "0 \<le> s \<and> s < int (length t) \<and> c \<le> ov"
    let ?s = "if s + c - ov < 0 then 0 else s + c - ov"
    from h eq obtain cs' where "f t c ov ?s cs' = Some r"
      by (simp add: Let_def)
    from IH[OF this] h show False by (auto split: if_splits)
  qed
qed

text \<open>
  With \<open>overlap \<ge> chunk_size\<close> the start offset never moves forward, clamped or not:
  on a non-empty text the loop does not return.
\<close>

lemma chunk_fixed_loop_diverges:
  "0 \<le> start \<Longrightarrow> start < int (length text) \<Longrightarrow> chunk_size \<le> overlap \<Longrightarrow>
   chunk_fixed_loop text chunk_size overlap start chunks = None"
  using chunk_fixed_loop_no_result[of "text" chunk_size overlap start chunks]
  by (cases "chunk_fixed_loop text chunk_size overlap start chunks") auto

text \<open>With \<open>overlap < chunk_size\<close> each iteration moves the start offset forward.\<close>

lemma chunk_fixed_loop_terminates:
  "overlap < chunk_size \<Longrightarrow> 0 \<le> start \<Longrightarrow>
   \<exists>ys. chunk_fixed_loop text chunk_size overlap start chunks = Some ys"
proof (induction "nat (int (length text) - start)" arbitrary: start chunks rule: less_induct)
  case less
  show ?case
  proof (cases "start < int (length text)")
    case False
    then show ?thesis by (subst chunk_fixed_loop.simps) simp
  next
    case True
    let ?s = "start + chunk_size - overlap"
    have "nat (int (length text) - ?s) < nat (int (length text) - start)" "0 \<le> ?s"
      using True less.prems by auto
    from less.hyps[OF this(1) less.prems(1) this(2)] True less.prems show ?thesis
      by (subst chunk_fixed_loop.simps) (simp add: Let_def)
  qed
qed

lemma chunk_fixed_size_returns_iff:
  assumes "0 < chunk_size" and "0 \<le> overlap"
  shows "(\<exists>ys. chunk_fixed_size text chunk_size overlap = Some ys) \<longleftrightarrow>
         (text = [] \<or> overlap < chunk_size)"
proof (cases "text = []")
  case True
  then show ?thesis
    by (simp add: chunk_fixed_size_def chunk_fixed_loop.simps)
next
  case False
  show ?thesis
  proof (cases "overlap < chunk_size")
    case True
    then show ?thesis
      using chunk_fixed_loop_terminates[of overlap chunk_size 0 "text" "[]"]
      by (simp add: chunk_fixed_size_def)
  next
    case ge: False
    have "chunk_fixed_size text chunk_size overlap = None"
      unfolding chunk_fixed_size_def
      using False ge by (intro chunk_fixed_loop_diverges) auto
    with False ge show ?thesis by simp
  qed
qed

text \<open>
  C1. The claim: \<open>chunk_fixed_size\<close> terminates for every text, every \<open>chunk_size > 0\<close>
  and every \<open>overlap \<ge> 0\<close>, also when \<open>overlap \<ge> chunk_size\<close>, thanks to the clamp of a
  negative start offset. The code at \<open>chunk_fixed_size("a", 1, 1)\<close>: the next start offset
  is \<open>0 + 1 - 1 = 0\<close>, the clamp does not apply, and the loop runs forever. At
  \<open>chunk_fixed_size("a", 1, 2)\<close> the next start offset is \<open>-1\<close>, the clamp sets it to 0,
  and the loop runs forever as well.
\<close>

theorem chunk_fixed_size_overlap_eq_size_diverges:
  "chunk_fixed_size ''a'' 1 1 = None \<and> chunk_fixed_size ''a'' 1 2 = None"
  unfolding chunk_fixed_size_def by (simp add: chunk_fixed_loop_diverges)

text \<open>
  C8. \<open>chunk_fixed_size("abcdefghij", 4, 1)\<close> returns \<open>["abcd", "defg", "ghij", "j"]\<close>,
  the windows that start at the offsets 0, 3, 6 and 9.
\<close>

theorem chunk_fixed_size_example:
  "chunk_fixed_size ''abcdefghij'' 4 1 = Some [''abcd'', ''defg'', ''ghij'', ''j'']"
  by (simp add: chunk_fixed_size_def chunk_fixed_loop.simps py_slice_def slice_index_def
      strip_def isspace_def Let_def)

section \<open>Sentence chunks: the example\<close>

text \<open>
  C2, as the spec states it: the sentences are \<open>["Hi.", "World is big.", "X."]\<close> and the
  chunks are \<open>["Hi.", "World is", "big.", "X."]\<close>. The code does not return these chunks.
\<close>

theorem chunk_by_sentences_example_counterexample:
  "chunk_by_sentences ''Hi. World is big. X.'' 10 \<noteq> Inr [''Hi.'', ''World is'', ''big.'', ''X.'']"
  by (simp add: sentence_defs)

text \<open>
  C2, amended: the sentences are \<open>["Hi.", "World is big."," X."]\<close> as stated, and the
  13-character sentence is cut into slices of exactly 10 characters, not at a word
  boundary: the chunks are \<open>["Hi.", "World is b", "ig.", "X."]\<close>.
\<close>

theorem chunk_by_sentences_example:
  "sentences_of (py_join '' '' (py_split ''Hi. World is big. X.'')) =
     [''Hi.'', ''World is big.'', ''X.''] \<and>
   chunk_by_sentences ''Hi. World is big. X.'' 10 =
     Inr [''Hi.'', ''World is b'', ''ig.'', ''X.'']"
  by (simp add: sentence_defs)

section \<open>Sentence chunks: every chunk is trimmed, non-empty and within the limit\<close>

lemma all_dropWhile_iff: "(\<forall>x\<in>set (dropWhile P s). P x) \<longleftrightarrow> (\<forall>x\<in>set s. P x)"
  by (induction s) auto

lemma strip_eq_Nil_iff: "strip s = [] \<longleftrightarrow> (\<forall>c\<in>set s. isspace c)"
  unfolding strip_def
  by (simp add: dropWhile_eq_Nil_conv all_dropWhile_iff)

lemma length_strip_le: "length (strip s) \<le> length s"
  unfolding strip_def
  by (metis length_dropWhile_le length_rev order_trans)

lemma dropWhile_rev_trim:
  assumes "xs = [] \<or> \<not> P (hd xs)"
  shows "dropWhile P (rev (dropWhile P (rev xs))) = rev (dropWhile P (rev xs))"
proof -
  define u where "u = rev (dropWhile P (rev xs))"
  have xs: "xs = u @ rev (takeWhile P (rev xs))"
    unfolding u_def by (metis rev_append rev_rev_ident takeWhile_dropWhile_id)
  have "dropWhile P u = u"
  proof (cases "u = []")
    case True
    then show ?thesis by simp
  next
    case False
    then have "hd u = hd xs" using xs by (metis hd_append2)
    moreover have "xs \<noteq> []" using False xs by auto
    ultimately have "\<not> P (hd u)" using assms by simp
    with False show ?thesis by (cases u) auto
  qed
  then show ?thesis by (simp add: u_def)
qed

lemma strip_idem: "strip (strip s) = strip s"
proof -
  have "dropWhile isspace s = [] \<or> \<not> isspace (hd (dropWhile isspace s))"
    using hd_dropWhile by blast
  from dropWhile_rev_trim[of "dropWhile isspace s" isspace, OF this] show ?thesis
    by (simp add: strip_def)
qed

lemma length_py_slice_le:
  "0 \<le> i \<Longrightarrow> 0 \<le> m \<Longrightarrow> int (length (py_slice s i (i + m))) \<le> m"
  by (auto simp: py_slice_def slice_index_def Let_def)

text \<open>The slices of a force-split sentence are good chunks, and the split does not raise.\<close>

lemma force_split_good:
  assumes "0 < m"
  shows "\<exists>parts. force_split s m = Inr parts \<and> (\<forall>p\<in>set parts. good_chunk m p)"
proof -
  have "good_chunk m (strip (py_slice s (int k * m) (int k * m + m)))"
    if "strip (py_slice s (int k * m) (int k * m + m)) \<noteq> []" for k
  proof -
    have "int (length (py_slice s (int k * m) (int k * m + m))) \<le> m"
      using assms by (intro length_py_slice_le) auto
    then have "int (length (strip (py_slice s (int k * m) (int k * m + m)))) \<le> m"
      using length_strip_le[of "py_slice s (int k * m) (int k * m + m)"] by linarith
    with that show ?thesis by (simp add: good_chunk_def strip_idem)
  qed
  with assms show ?thesis
    by (auto simp: force_split_def py_range0_def)
qed

lemma strip_join_nonempty:
  assumes "s \<noteq> []" "strip s = s"
  shows "strip (cur @ '' '' @ s) \<noteq> []"
proof -
  from assms have "\<not> (\<forall>c\<in>set s. isspace c)" using strip_eq_Nil_iff[of s] by auto
  then show ?thesis by (auto simp: strip_eq_Nil_iff)
qed

text \<open>One iteration keeps the invariant; the four cases are the four branches of the body.\<close>

lemma pack_step_inv:
  assumes "0 < m" "pack_inv m st"
  shows "\<exists>st'. pack_step m s0 st = Inr st' \<and> pack_inv m st'"
proof -
  obtain chunks cur where st: "st = (chunks, cur)" by (cases st)
  define s where "s = strip s0"
  have ss: "strip s = s" by (simp add: s_def strip_idem)
  from assms(2) st have ch: "\<forall>c\<in>set chunks. good_chunk m c"
    and cur: "cur = [] \<or> good_chunk m cur"
    by (auto simp: pack_inv_def)
  from cur have scur: "cur \<noteq> [] \<Longrightarrow> strip cur = cur" by (auto simp: good_chunk_def)
  consider (empty) "s = []" | (big) "s \<noteq> []" "int (length s) > m"
    | (flush) "s \<noteq> []" "\<not> int (length s) > m"
        "cur \<noteq> [] \<and> int (length cur) + 1 + int (length s) > m"
    | (app) "s \<noteq> []" "\<not> int (length s) > m"
        "\<not> (cur \<noteq> [] \<and> int (length cur) + 1 + int (length s) > m)"
    by blast
  then show ?thesis
  proof cases
    case empty
    then show ?thesis using assms(2) st by (simp add: pack_step_def s_def[symmetric])
  next
    case big
    from force_split_good[OF assms(1), of s] obtain parts where
      p: "force_split s m = Inr parts" "\<forall>p\<in>set parts. good_chunk m p" by blast
    with big ch cur scur show ?thesis
      by (auto simp: pack_step_def st s_def[symmetric] pack_inv_def Let_def)
  next
    case flush
    then have "good_chunk m s" using ss by (simp add: good_chunk_def)
    with flush ch cur scur show ?thesis
      by (auto simp: pack_step_def st s_def[symmetric] pack_inv_def Let_def)
  next
    case app
    have gs: "good_chunk m s" using app ss by (simp add: good_chunk_def)
    show ?thesis
    proof (cases "cur = []")
      case True
      with app gs ch show ?thesis
        by (auto simp: pack_step_def st s_def[symmetric] pack_inv_def Let_def)
    next
      case False
      have "int (length (strip (cur @ '' '' @ s))) \<le> m"
        using length_strip_le[of "cur @ '' '' @ s"] app False by simp
      then have "good_chunk m (strip (cur @ '' '' @ s))"
        using strip_join_nonempty[OF app(1) ss] by (simp add: good_chunk_def strip_idem)
      with app False ch show ?thesis
        by (auto simp: pack_step_def st s_def[symmetric] pack_inv_def Let_def)
    qed
  qed
qed

lemma pack_loop_inv:
  assumes "0 < m"
  shows "pack_inv m st \<Longrightarrow> \<exists>st'. pack_loop m ss st = Inr st' \<and> pack_inv m st'"
proof (induction ss arbitrary: st)
  case Nil
  then show ?case by simp
next
  case (Cons s ss)
  from pack_step_inv[OF assms Cons.prems, of s] obtain st1 where
    "pack_step m s st = Inr st1" "pack_inv m st1" by blast
  with Cons.IH[of st1] show ?case by simp
qed

lemma chunk_by_sentences_good:
  assumes "0 < m"
  shows "\<exists>chunks. chunk_by_sentences text m = Inr chunks \<and> (\<forall>c\<in>set chunks. good_chunk m c)"
proof -
  have "pack_inv m ([], [])" by (simp add: pack_inv_def)
  from pack_loop_inv[OF assms this] obtain st where
    st: "pack_loop m (sentences_of (py_join '' '' (py_split text))) ([], []) = Inr st"
      "pack_inv m st"
    by blast
  then show ?thesis
    by (auto simp: chunk_by_sentences_def Let_def pack_inv_def good_chunk_def)
qed

text \<open>
  A sentence of exactly \<open>max_chars\<close> characters takes the packing branch: it becomes the
  accumulator, after a flush of what the accumulator held.
\<close>

lemma pack_step_exact:
  assumes "0 < m" "int (length (strip s0)) = m"
  shows "pack_step m s0 (chunks, cur) =
           Inr (if cur = [] then chunks else chunks @ [strip cur], strip s0)"
  using assms by (auto simp: pack_step_def Let_def)

lemma pack_loop_append:
  "pack_loop m (xs @ ys) st =
     (case pack_loop m xs st of Inl e \<Rightarrow> Inl e | Inr st' \<Rightarrow> pack_loop m ys st')"
  by (induction xs arbitrary: st) (auto split: sum.splits)

text \<open>
  An accumulator of exactly \<open>max_chars\<close> characters takes nothing more: the next
  sentence flushes it as it is, and an emitted chunk stays emitted.
\<close>

lemma pack_step_holds:
  assumes "0 < m" "good_chunk m c" "int (length c) = m" "holds_chunk c st"
    and "pack_step m s st = Inr st'"
  shows "holds_chunk c st'"
proof -
  obtain chunks cur where st: "st = (chunks, cur)" by (cases st)
  from assms(2) have c: "strip c = c" "c \<noteq> []" by (auto simp: good_chunk_def)
  show ?thesis
  proof (cases "c \<in> set chunks")
    case True
    with assms(5) show ?thesis
      by (auto simp: pack_step_def st holds_chunk_def Let_def split: if_splits sum.splits)
  next
    case False
    with assms(4) st have "cur = c" by (simp add: holds_chunk_def)
    with assms(3,5) c show ?thesis
      by (auto simp: pack_step_def st holds_chunk_def Let_def split: if_splits sum.splits)
  qed
qed

lemma pack_loop_holds:
  assumes "0 < m" "good_chunk m c" "int (length c) = m"
  shows "holds_chunk c st \<Longrightarrow> pack_loop m ss st = Inr st' \<Longrightarrow> holds_chunk c st'"
proof (induction ss arbitrary: st)
  case Nil
  then show ?case by simp
next
  case (Cons s ss)
  from Cons.prems(2) obtain st1 where
    s1: "pack_step m s st = Inr st1" and l1: "pack_loop m ss st1 = Inr st'"
    by (auto split: sum.splits)
  from pack_step_holds[OF assms Cons.prems(1) s1] Cons.IH[OF _ l1] show ?case by blast
qed

lemma exact_sentence_emitted:
  assumes m: "0 < m" and s0: "s0 \<in> set ss" and len: "int (length (strip s0)) = m"
    and run: "pack_loop m ss ([], []) = Inr st"
  shows "strip s0 \<in> set (if snd st \<noteq> [] then fst st @ [strip (snd st)] else fst st)"
proof -
  define c where "c = strip s0"
  have gc: "good_chunk m c" using m len by (auto simp: good_chunk_def c_def strip_idem)
  from s0 obtain pre post where ss: "ss = pre @ s0 # post" by (meson split_list)
  from run obtain st1 st2 where
    "pack_loop m pre ([], []) = Inr st1" and s2: "pack_step m s0 st1 = Inr st2"
    and l3: "pack_loop m post st2 = Inr st"
    unfolding ss pack_loop_append by (auto split: sum.splits)
  from s2 have "snd st2 = c"
    using pack_step_exact[OF m len, of "fst st1" "snd st1"] by (simp add: c_def)
  then have "holds_chunk c st2" by (simp add: holds_chunk_def)
  from pack_loop_holds[OF m gc _ this l3] len have "holds_chunk c st" by (simp add: c_def)
  with gc show ?thesis by (auto simp: holds_chunk_def good_chunk_def c_def[symmetric])
qed

text \<open>
  C7. For every text and every \<open>max_chars > 0\<close>, \<open>chunk_by_sentences\<close> returns (it does
  not raise), and every chunk it returns is trimmed, non-empty and at most \<open>max_chars\<close>
  long, the slices of a force-split sentence included. A sentence of exactly \<open>max_chars\<close>
  characters is not force-split: the loop body makes it the accumulator, and it comes
  out whole as a chunk of its own.
\<close>

theorem chunk_by_sentences_chunks:
  assumes "0 < max_chars"
  shows "\<exists>chunks. chunk_by_sentences text max_chars = Inr chunks \<and>
           (\<forall>c\<in>set chunks. strip c = c \<and> c \<noteq> [] \<and> int (length c) \<le> max_chars) \<and>
           (\<forall>s\<in>set (sentences_of (py_join '' '' (py_split text))).
              int (length (strip s)) = max_chars \<longrightarrow>
                strip s \<in> set chunks \<and>
                (\<forall>acc cur. pack_step max_chars s (acc, cur) =
                   Inr (if cur = [] then acc else acc @ [strip cur], strip s)))"
proof -
  let ?ss = "sentences_of (py_join '' '' (py_split text))"
  from chunk_by_sentences_good[OF assms, of "text"] obtain chunks where
    ch: "chunk_by_sentences text max_chars = Inr chunks"
      "\<forall>c\<in>set chunks. good_chunk max_chars c"
    by blast
  have "strip s \<in> set chunks" if "s \<in> set ?ss" "int (length (strip s)) = max_chars" for s
  proof -
    have ne: "py_join '' '' (py_split text) \<noteq> []"
    proof
      assume "py_join '' '' (py_split text) = []"
      then have "?ss = [[]]" by (simp add: sentences_of_def)
      with that assms show False by (simp add: strip_def)
    qed
    from ch(1) ne obtain st where
      st: "pack_loop max_chars ?ss ([], []) = Inr st"
      "chunks = (if snd st \<noteq> [] then fst st @ [strip (snd st)] else fst st)"
      by (auto simp: chunk_by_sentences_def Let_def split: sum.splits)
    from exact_sentence_emitted[OF assms that st(1)] st(2) show ?thesis by simp
  qed
  with ch pack_step_exact[OF assms] show ?thesis
    by (auto simp: good_chunk_def)
qed

text \<open>
  The theorem at \<open>chunk_by_sentences("Hi. Yo.", 3)\<close>: both sentences are exactly 3
  characters long and come out whole.
\<close>

theorem chunk_by_sentences_chunks_witness:
  "(0::int) < 3 \<and>
   (\<exists>chunks. chunk_by_sentences ''Hi. Yo.'' 3 = Inr chunks \<and> chunks = [''Hi.'', ''Yo.''] \<and>
      list_all (\<lambda>c. strip c = c \<and> c \<noteq> [] \<and> int (length c) \<le> 3) chunks \<and>
      ''Hi.'' \<in> set (sentences_of (py_join '' '' (py_split ''Hi. Yo.''))) \<and>
      int (length (strip ''Hi.'')) = 3 \<and> strip ''Hi.'' \<in> set chunks)"
proof -
  have ev: "chunk_by_sentences ''Hi. Yo.'' 3 = Inr [''Hi.'', ''Yo.'']"
    "sentences_of (py_join '' '' (py_split ''Hi. Yo.'')) = [''Hi.'', ''Yo.'']"
    "strip ''Hi.'' = ''Hi.''"
    by (simp_all add: sentence_defs)
  from chunk_by_sentences_chunks[of 3 "''Hi. Yo.''"] ev show ?thesis
    by (simp add: list_all_iff)
qed

section \<open>Cosine similarity: the formula, the guards and symmetry\<close>

lemma fmul_commute: "fmul x y = fmul y x"
  by (cases x; cases y) (simp_all add: mult.commute)

lemma fadd_assoc: "fadd (fadd x y) z = fadd x (fadd y z)"
  by (cases x; cases y; cases z) simp_all

lemma fadd_zero [simp]: "fadd (Finite 0) x = x" "fadd x (Finite 0) = x"
  by (cases x; simp)+

text \<open>A sum of squares is never negative, so \<open>math.sqrt\<close> does not raise on it.\<close>

lemma nonneg_square: "nonneg (fmul x x)"
  by (cases x) (simp_all add: inf_times_def)

lemma nonneg_fadd: "nonneg x \<Longrightarrow> nonneg y \<Longrightarrow> nonneg (fadd x y)"
  by (cases x; cases y) simp_all

lemma fsqrt_nonneg: "nonneg x \<Longrightarrow> \<exists>r. fsqrt x = Inr r"
  by (cases x) simp_all

lemma fdiv_nonzero: "y \<noteq> Finite 0 \<Longrightarrow> \<exists>r. fdiv x y = Inr r"
  by (cases x; cases y) simp_all

text \<open>The three accumulators of the loop are the three sums.\<close>

lemma cosine_loop_sums:
  "cosine_loop ps (d, na, nb) =
     (fadd d (fsum (map (\<lambda>(x, y). fmul x y) ps)),
      fadd na (fsum (map (\<lambda>(x, y). fmul x x) ps)),
      fadd nb (fsum (map (\<lambda>(x, y). fmul y y) ps)))"
  by (induction ps arbitrary: d na nb) (auto simp: fsum_def fadd_assoc)

lemma nonneg_fsum_squares: "nonneg (fsum (map (\<lambda>x. fmul x x) xs))"
  by (induction xs) (simp_all add: fsum_def nonneg_fadd nonneg_square)

lemma dot_self: "dot a a = fsum (map (\<lambda>x. fmul x x) a)"
  by (simp add: dot_def zip_same_conv_map comp_def)

lemma squares_fst:
  "length a = length b \<Longrightarrow> map (\<lambda>(x, y). fmul x x) (zip a b) = map (\<lambda>x. fmul x x) a"
  by (induction a b rule: list_induct2) simp_all

lemma squares_snd:
  "length a = length b \<Longrightarrow> map (\<lambda>(x, y). fmul y y) (zip a b) = map (\<lambda>x. fmul x x) b"
  by (induction a b rule: list_induct2) simp_all

lemma cosine_loop_zip:
  assumes "length a = length b"
  shows "cosine_loop (zip a b) (Finite 0, Finite 0, Finite 0) = (dot a b, dot a a, dot b b)"
  using assms by (simp add: cosine_loop_sums dot_self squares_fst squares_snd dot_def)

lemma nonneg_dot_self: "nonneg (dot a a)"
  by (simp add: dot_self nonneg_fsum_squares)

lemma cosine_similarity_eq:
  "cosine_similarity a b =
     Inr (if a = [] \<or> b = [] \<or> length a \<noteq> length b then NegInf
          else if fmul (norm2 a) (norm2 b) = Finite 0 then NegInf
          else cosine_spec a b)"
proof (cases "a = [] \<or> b = [] \<or> length a \<noteq> length b")
  case True
  then show ?thesis by (auto simp: cosine_similarity_def)
next
  case False
  then have len: "length a = length b" by simp
  obtain ra rb where r: "fsqrt (dot a a) = Inr ra" "fsqrt (dot b b) = Inr rb"
    using fsqrt_nonneg[OF nonneg_dot_self] by blast
  then have n: "norm2 a = ra" "norm2 b = rb" by (simp_all add: norm2_def the_float_def)
  show ?thesis
  proof (cases "fmul ra rb = Finite 0")
    case True
    with False r n show ?thesis
      by (simp add: cosine_similarity_def cosine_loop_zip[OF len])
  next
    case nz: False
    from fdiv_nonzero[OF nz] obtain q where q: "fdiv (dot a b) (fmul ra rb) = Inr q" by blast
    with False r n nz show ?thesis
      by (simp add: cosine_similarity_def cosine_loop_zip[OF len] cosine_spec_def the_float_def)
  qed
qed

lemma dot_commute: "dot a b = dot b a"
proof -
  have "map (\<lambda>(x, y). fmul x y) (zip a b) = map (\<lambda>(x, y). fmul x y) (zip b a)"
    by (induction a arbitrary: b) (auto simp: fmul_commute zip_Cons1 split: list.splits)
  then show ?thesis by (simp add: dot_def)
qed

text \<open>
  In any arithmetic: the three accumulators of the loop are three sums taken from
  \<open>0.0\<close> on, and for vectors of one length they are \<open>dot(a, b)\<close>, \<open>dot(a, a)\<close> and
  \<open>dot(b, b)\<close>.
\<close>

lemma cosine_loop_in_folds:
  "cosine_loop_in A ps (d, na, nb) =
     (foldl (\<lambda>acc (x, y). add_f A acc (mul_f A x y)) d ps,
      foldl (\<lambda>acc (x, y). add_f A acc (mul_f A x x)) na ps,
      foldl (\<lambda>acc (x, y). add_f A acc (mul_f A y y)) nb ps)"
  by (induction ps arbitrary: d na nb) auto

lemma fold_squares_fst:
  "length a = length b \<Longrightarrow>
   foldl (\<lambda>acc (x, y). add_f A acc (mul_f A x x)) z (zip a b) =
   foldl (\<lambda>acc (x, y). add_f A acc (mul_f A x y)) z (zip a a)"
  by (induction a b arbitrary: z rule: list_induct2) simp_all

lemma fold_squares_snd:
  "length a = length b \<Longrightarrow>
   foldl (\<lambda>acc (x, y). add_f A acc (mul_f A y y)) z (zip a b) =
   foldl (\<lambda>acc (x, y). add_f A acc (mul_f A x y)) z (zip b b)"
  by (induction a b arbitrary: z rule: list_induct2) simp_all

lemma cosine_loop_in_dots:
  assumes "length a = length b"
  shows "cosine_loop_in A (zip a b) (Finite 0, Finite 0, Finite 0) =
           (dot_in A a b, dot_in A a a, dot_in A b b)"
  using assms by (simp add: cosine_loop_in_folds dot_in_def fold_squares_fst fold_squares_snd)

text \<open>
  In a sound arithmetic \<open>dot(a, a)\<close> is never negative, so \<open>math.sqrt\<close> does not raise
  on it.
\<close>

lemma nonneg_fold_squares:
  assumes "sound_arith A"
  shows "nonneg z \<Longrightarrow> nonneg (foldl (\<lambda>acc (x, y). add_f A acc (mul_f A x y)) z (zip a a))"
proof (induction a arbitrary: z)
  case Nil
  then show ?case by simp
next
  case (Cons x a)
  have "nonneg (add_f A z (mul_f A x x))"
    using assms Cons.prems by (simp add: sound_arith_def)
  from Cons.IH[OF this] show ?case by simp
qed

lemma nonneg_dot_in_self: "sound_arith A \<Longrightarrow> nonneg (dot_in A a a)"
  unfolding dot_in_def by (rule nonneg_fold_squares) simp_all

lemma sqrt_dot_in_self:
  assumes "sound_arith A"
  shows "\<exists>r. sqrt_f A (dot_in A a a) = Inr r"
  using assms nonneg_dot_in_self[OF assms, of a] by (simp add: sound_arith_def)

lemma cosine_similarity_in_cases:
  assumes "sound_arith A"
  shows "(a = [] \<or> b = [] \<or> length a \<noteq> length b \<longrightarrow>
            cosine_similarity_in A a b = Inr NegInf) \<and>
         (a \<noteq> [] \<and> b \<noteq> [] \<and> length a = length b \<longrightarrow>
            (\<exists>na nb. sqrt_f A (dot_in A a a) = Inr na \<and> sqrt_f A (dot_in A b b) = Inr nb \<and>
               (mul_f A na nb = Finite 0 \<longrightarrow> cosine_similarity_in A a b = Inr NegInf) \<and>
               (mul_f A na nb \<noteq> Finite 0 \<longrightarrow>
                  (\<exists>c. div_f A (dot_in A a b) (mul_f A na nb) = Inr c \<and>
                       cosine_similarity_in A a b = Inr c))))"
proof (intro conjI impI)
  assume "a = [] \<or> b = [] \<or> length a \<noteq> length b"
  then show "cosine_similarity_in A a b = Inr NegInf"
    by (auto simp: cosine_similarity_in_def)
next
  assume h: "a \<noteq> [] \<and> b \<noteq> [] \<and> length a = length b"
  then have len: "length a = length b" by simp
  from sqrt_dot_in_self[OF assms] obtain na nb where
    r: "sqrt_f A (dot_in A a a) = Inr na" "sqrt_f A (dot_in A b b) = Inr nb" by blast
  have z: "cosine_similarity_in A a b = Inr NegInf" if "mul_f A na nb = Finite 0"
    using h r that by (simp add: cosine_similarity_in_def cosine_loop_in_dots[OF len])
  have nz: "\<exists>c. div_f A (dot_in A a b) (mul_f A na nb) = Inr c \<and> cosine_similarity_in A a b = Inr c"
    if "mul_f A na nb \<noteq> Finite 0"
  proof -
    from assms that obtain c where "div_f A (dot_in A a b) (mul_f A na nb) = Inr c"
      unfolding sound_arith_def by blast
    with h r that show ?thesis
      by (simp add: cosine_similarity_in_def cosine_loop_in_dots[OF len])
  qed
  from r z nz show "\<exists>na nb. sqrt_f A (dot_in A a a) = Inr na \<and> sqrt_f A (dot_in A b b) = Inr nb \<and>
               (mul_f A na nb = Finite 0 \<longrightarrow> cosine_similarity_in A a b = Inr NegInf) \<and>
               (mul_f A na nb \<noteq> Finite 0 \<longrightarrow>
                  (\<exists>c. div_f A (dot_in A a b) (mul_f A na nb) = Inr c \<and>
                       cosine_similarity_in A a b = Inr c))"
    by blast
qed

lemma cosine_similarity_in_returns:
  assumes "sound_arith A"
  shows "\<exists>s. cosine_similarity_in A a b = Inr s"
  using cosine_similarity_in_cases[OF assms, of a b] by blast

text \<open>
  The arithmetic without rounding is sound, and \<open>cosine_similarity\<close> as written out
  for it is the function in that arithmetic.
\<close>

lemma sound_exact_arith: "sound_arith exact_arith"
  by (simp add: sound_arith_def exact_arith_def nonneg_square nonneg_fadd fsqrt_nonneg fdiv_nonzero)

lemma cosine_loop_exact: "cosine_loop_in exact_arith ps acc = cosine_loop ps acc"
  by (induction ps acc rule: cosine_loop.induct) (simp_all add: exact_arith_def)

lemma exact_arith_simps:
  "add_f exact_arith = fadd" "mul_f exact_arith = fmul"
  "sqrt_f exact_arith = fsqrt" "div_f exact_arith = fdiv"
  by (simp_all add: exact_arith_def)

lemma cosine_similarity_exact: "cosine_similarity_in exact_arith a b = cosine_similarity a b"
  unfolding cosine_similarity_in_def cosine_similarity_def cosine_loop_exact exact_arith_simps ..

text \<open>
  C6. For all float vectors \<open>a\<close> and \<open>b\<close>, in the arithmetic of floats (any sound
  arithmetic): when a vector is empty or the dimensions differ, \<open>cosine_similarity(a, b)\<close>
  is negative infinity. Otherwise the norms \<open>||a|| = sqrt(dot(a, a))\<close> and \<open>||b||\<close>
  exist, and the result is negative infinity when the denominator \<open>||a|| * ||b||\<close> is
  exactly zero and \<open>dot(a, b) / (||a|| * ||b||)\<close> when it is not. In every case the call
  returns a value (\<open>Inr\<close>): it never raises.
\<close>

theorem cosine_similarity_formula:
  assumes "sound_arith A"
  shows "(a = [] \<or> b = [] \<or> length a \<noteq> length b \<longrightarrow>
            cosine_similarity_in A a b = Inr NegInf) \<and>
         (a \<noteq> [] \<and> b \<noteq> [] \<and> length a = length b \<longrightarrow>
            (\<exists>na nb. sqrt_f A (dot_in A a a) = Inr na \<and> sqrt_f A (dot_in A b b) = Inr nb \<and>
               (mul_f A na nb = Finite 0 \<longrightarrow> cosine_similarity_in A a b = Inr NegInf) \<and>
               (mul_f A na nb \<noteq> Finite 0 \<longrightarrow>
                  (\<exists>c. div_f A (dot_in A a b) (mul_f A na nb) = Inr c \<and>
                       cosine_similarity_in A a b = Inr c))))"
  using cosine_similarity_in_cases[OF assms] .

text \<open>
  The theorem in the arithmetic without rounding, at the spec's vectors: \<open>[1, 0]\<close>
  against \<open>[1, 0]\<close>, \<open>[0, 1]\<close> and \<open>[-1, 0]\<close>, and at an empty vector, a dimension
  mismatch and a zero vector.
\<close>

theorem cosine_similarity_formula_witness:
  "sound_arith exact_arith \<and>
   cosine_similarity_in exact_arith [Finite 1, Finite 0] [Finite 1, Finite 0] = Inr (Finite 1) \<and>
   cosine_similarity_in exact_arith [Finite 1, Finite 0] [Finite 0, Finite 1] = Inr (Finite 0) \<and>
   cosine_similarity_in exact_arith [Finite 1, Finite 0] [Finite (- 1), Finite 0] = Inr (Finite (- 1)) \<and>
   cosine_similarity_in exact_arith [] [Finite 1] = Inr NegInf \<and>
   cosine_similarity_in exact_arith [Finite 1] [Finite 1, Finite 2] = Inr NegInf \<and>
   cosine_similarity_in exact_arith [Finite 0, Finite 0] [Finite 1, Finite 0] = Inr NegInf"
  using sound_exact_arith
    cosine_similarity_formula[OF sound_exact_arith, of "[Finite 1, Finite 0]" "[Finite 1, Finite 0]"]
    cosine_similarity_formula[OF sound_exact_arith, of "[Finite 1, Finite 0]" "[Finite 0, Finite 1]"]
    cosine_similarity_formula[OF sound_exact_arith, of "[Finite 1, Finite 0]" "[Finite (- 1), Finite 0]"]
    cosine_similarity_formula[OF sound_exact_arith, of "[]" "[Finite 1]"]
    cosine_similarity_formula[OF sound_exact_arith, of "[Finite 1]" "[Finite 1, Finite 2]"]
    cosine_similarity_formula[OF sound_exact_arith, of "[Finite 0, Finite 0]" "[Finite 1, Finite 0]"]
  by (simp add: dot_in_def exact_arith_simps)

text \<open>
  C10. \<open>cosine_similarity\<close> is symmetric: for all float vectors \<open>a\<close> and \<open>b\<close>,
  \<open>cosine_similarity(a, b)\<close> and \<open>cosine_similarity(b, a)\<close> are the same value, the
  guard cases included, where both are negative infinity.
\<close>

theorem cosine_similarity_symmetric: "cosine_similarity a b = cosine_similarity b a"
  unfolding cosine_similarity_eq
  by (auto simp: dot_commute fmul_commute cosine_spec_def)

text \<open>
  Symmetry does not depend on the arithmetic being exact: it holds in every sound
  arithmetic whose multiplication commutes, as that of floats does.
\<close>

lemma cosine_loop_in_swap:
  assumes "\<forall>x y. mul_f A x y = mul_f A y x"
  shows "cosine_loop_in A (zip a b) (d, na, nb) = (d', na', nb') \<Longrightarrow>
         cosine_loop_in A (zip b a) (d, nb, na) = (d', nb', na')"
proof (induction a arbitrary: b d na nb)
  case Nil
  then show ?case by simp
next
  case (Cons x a)
  then show ?case
    using assms by (cases b) auto
qed

lemma cosine_similarity_in_symmetric:
  assumes "sound_arith A" "\<forall>x y. mul_f A x y = mul_f A y x"
  shows "cosine_similarity_in A a b = cosine_similarity_in A b a"
proof (cases "a = [] \<or> b = [] \<or> length a \<noteq> length b")
  case True
  then show ?thesis by (auto simp: cosine_similarity_in_def)
next
  case False
  then have len: "length a = length b" "length b = length a" by simp_all
  have "dot_in A a b = dot_in A b a"
    using cosine_loop_in_swap[OF assms(2), of a b "Finite 0" "Finite 0" "Finite 0"]
    by (simp add: cosine_loop_in_dots[OF len(1)] cosine_loop_in_dots[OF len(2)])
  moreover obtain ra rb where "sqrt_f A (dot_in A a a) = Inr ra" "sqrt_f A (dot_in A b b) = Inr rb"
    using sqrt_dot_in_self[OF assms(1)] by blast
  ultimately show ?thesis
    using False assms(2)
    by (simp add: cosine_similarity_in_def cosine_loop_in_dots[OF len(1)]
        cosine_loop_in_dots[OF len(2)])
qed

section \<open>The embedding client's response\<close>

lemma float_list_Inr_iff: "float_list sf xs = Inr v \<longleftrightarrow> map (py_float sf) xs = map Inr v"
proof (induction xs arbitrary: v)
  case Nil
  then show ?case by auto
next
  case (Cons x xs)
  show ?case
  proof (cases v)
    case Nil
    then show ?thesis by (auto split: sum.splits)
  next
    case (Cons f fs)
    with Cons.IH[of fs] show ?thesis by (auto split: sum.splits)
  qed
qed

lemma embed_text_Inr_iff:
  "embed_text sf cl t = Inr v \<longleftrightarrow>
     (\<exists>resp xs. cl t = Inr resp \<and> first_values resp = Inr (PyList xs) \<and> xs \<noteq> [] \<and>
        map (py_float sf) xs = map Inr v)"
  by (auto simp: embed_text_def float_list_Inr_iff[symmetric] split: sum.splits pyval.splits)

lemma embed_text_failure: "embed_text sf cl t = Inl e \<Longrightarrow> embedding_failure e"
  by (auto simp: embed_text_def split: sum.splits pyval.splits if_splits)

lemma embed_text_nonempty: "embed_text sf cl t = Inr v \<Longrightarrow> v \<noteq> []"
  by (auto simp: embed_text_Inr_iff)

text \<open>
  C3, as the spec states it: \<open>embed_text\<close> fails whenever the response contains a
  non-finite element. The code at a response whose vector is \<open>[nan, inf]\<close>: every
  element is a float, \<open>float(x)\<close> returns it as it is, and the vector is returned.
\<close>

theorem embed_text_nan_counterexample:
  "embed_text (\<lambda>s. None)
     (\<lambda>t. Inr (Response (Some [PyList [PyFloat NaN, PyFloat PosInf]]))) ''query''
     = Inr [NaN, PosInf]"
  by (simp add: embed_text_def first_values_def)

text \<open>
  C3, amended. \<open>embed_text\<close> returns a vector exactly when the call of the client
  returns a response whose first embedding holds a non-empty list every element of
  which \<open>float()\<close> converts, and the vector is the list of the converted elements; in
  every other case it fails with an embedding failure (a \<open>RuntimeError\<close> of one of
  its four messages). \<open>float()\<close> converts every float to itself, NaN and the infinities
  included: a non-finite element is returned in the vector, unchanged.
\<close>

theorem embed_text_accepts:
  "(embed_text sf cl t = Inr v \<longleftrightarrow>
     (\<exists>resp xs. cl t = Inr resp \<and> first_values resp = Inr (PyList xs) \<and> xs \<noteq> [] \<and>
        map (py_float sf) xs = map Inr v)) \<and>
   (\<forall>e. embed_text sf cl t = Inl e \<longrightarrow> embedding_failure e) \<and>
   (\<forall>f. py_float sf (PyFloat f) = Inr f)"
  using embed_text_Inr_iff[of sf cl t v] embed_text_failure[of sf cl t] by auto

text \<open>
  The theorem at a response with the element \<open>None\<close>, which fails, and at one with a
  float and an int, which is returned converted.
\<close>

theorem embed_text_accepts_witness:
  "embed_text (\<lambda>s. None)
     (\<lambda>t. Inr (Response (Some [PyList [PyFloat (Finite 1), PyNone]]))) ''query''
     = Inl (NonNumericValues TypeError) \<and>
   embedding_failure (NonNumericValues TypeError) \<and>
   embed_text (\<lambda>s. None)
     (\<lambda>t. Inr (Response (Some [PyList [PyFloat (Finite 1), PyInt 2]]))) ''query''
     = Inr [Finite 1, Finite 2]"
proof -
  let ?bad = "\<lambda>t::string. Inr (Response (Some [PyList [PyFloat (Finite 1), PyNone]])) :: string + response"
  let ?good = "\<lambda>t::string. Inr (Response (Some [PyList [PyFloat (Finite 1), PyInt 2]])) :: string + response"
  have a: "embed_text (\<lambda>s. None) ?bad ''query'' = Inl (NonNumericValues TypeError)"
    by (simp add: embed_text_def first_values_def)
  have b: "map (py_float (\<lambda>s. None)) [PyFloat (Finite 1), PyInt 2] = map Inr [Finite 1, Finite 2]"
    by simp
  have c: "first_values (Response (Some [PyList [PyFloat (Finite 1), PyInt 2]])) =
      Inr (PyList [PyFloat (Finite 1), PyInt 2])"
    by (simp add: first_values_def)
  from embed_text_accepts[of "\<lambda>s. None" ?bad "''query''" "[]"] a
  have "embedding_failure (NonNumericValues TypeError)" by blast
  moreover from embed_text_accepts[of "\<lambda>s. None" ?good "''query''" "[Finite 1, Finite 2]"] b c
  have "embed_text (\<lambda>s. None) ?good ''query'' = Inr [Finite 1, Finite 2]" by blast
  ultimately show ?thesis using a by simp
qed

section \<open>Backfill: failing fast, and running on a fully embedded store\<close>

lemma backfill_loop_append:
  "backfill_loop ev (xs @ ys) st =
     (case backfill_loop ev xs st of
        (st', Some e) \<Rightarrow> (st', Some e)
      | (st', None) \<Rightarrow> backfill_loop ev ys st')"
proof (induction xs arbitrary: st)
  case Nil
  then show ?case by simp
next
  case (Cons x xs)
  obtain cid ctext where x: "x = (cid, ctext)" by (cases x)
  show ?case
    by (simp add: x Cons.IH Let_def split: sum.splits)
qed

lemma done_counts_append:
  "done_counts (xs @ ys) = (case done_counts xs of Some c \<Rightarrow> Some c | None \<Rightarrow> done_counts ys)"
  by (induction xs rule: done_counts.induct) simp_all

lemma counters_ok_start: "counters_ok (start_state tbl0 n)"
  by (simp add: counters_ok_def start_state_def)

text \<open>The counters count the lines printed, whether the loop ends or fails.\<close>

lemma backfill_loop_counters:
  "counters_ok st \<Longrightarrow> backfill_loop ev rows st = (st', r) \<Longrightarrow> counters_ok st'"
proof (induction rows arbitrary: st)
  case Nil
  then show ?case by simp
next
  case (Cons x rows)
  obtain cid ctext where x: "x = (cid, ctext)" by (cases x)
  show ?case
  proof (cases "blank_text ctext")
    case True
    with Cons.prems(2) have
      "backfill_loop ev rows
         (st\<lparr>printed := printed st @ [MSkipped cid], skipped := skipped st + 1\<rparr>) = (st', r)"
      by (simp add: x)
    moreover have
      "counters_ok (st\<lparr>printed := printed st @ [MSkipped cid], skipped := skipped st + 1\<rparr>)"
      using Cons.prems(1) by (simp add: counters_ok_def done_counts_append)
    ultimately show ?thesis by (rule Cons.IH[rotated])
  next
    case False
    show ?thesis
    proof (cases "embed_text (str_float ev) (embed_content ev) (the ctext)")
      case (Inl e)
      with False Cons.prems show ?thesis
        by (auto simp: x Let_def counters_ok_def)
    next
      case (Inr vec)
      show ?thesis
      proof (cases "db_update_error ev cid vec")
        case (Some m)
        with False Inr Cons.prems show ?thesis
          by (auto simp: x Let_def counters_ok_def update_embedding_def)
      next
        case None
        let ?st = "st\<lparr>calls := calls st @ [EmbedCall (the ctext), UpdateCall cid vec],
                       tbl := update_rows cid vec (tbl st),
                       printed := printed st @ [MUpdated cid (length vec)],
                       updated := updated st + 1\<rparr>"
        from False Inr None Cons.prems(2) have "backfill_loop ev rows ?st = (st', r)"
          by (simp add: x Let_def update_embedding_def)
        moreover have "counters_ok ?st"
          using Cons.prems(1) by (simp add: counters_ok_def done_counts_append)
        ultimately show ?thesis by (rule Cons.IH[rotated])
      qed
    qed
  qed
qed

text \<open>
  A chunk at which the loop fails: its text is not blank, and either the embedder
  failed, or the embedder returned a vector and the update of this chunk failed.
  Nothing was printed and the table is as before.
\<close>

lemma backfill_single_failure:
  assumes "backfill_loop ev [(cid, ctext)] st = (st', Some e)"
  shows "tbl st' = tbl st \<and> printed st' = printed st \<and>
    (\<exists>t. ctext = Some t \<and>
      ((embed_text (str_float ev) (embed_content ev) t = Inl e \<and>
        calls st' = calls st @ [EmbedCall t]) \<or>
       (\<exists>vec m. embed_text (str_float ev) (embed_content ev) t = Inr vec \<and>
          db_update_error ev cid vec = Some m \<and> e = DbUpdateFailed cid m \<and>
          calls st' = calls st @ [EmbedCall t, UpdateCall cid vec])))"
  using assms
  by (cases ctext)
     (auto simp: Let_def blank_text_def update_embedding_def
           split: if_splits sum.splits option.splits)

lemma embedder_main_running:
  assumes "api_key ev \<noteq> None" "api_key ev \<noteq> Some []" "db_fetch_error ev = None"
  shows "embedder_main ev tbl0 =
     (if select_chunks_without_embedding 50 tbl0 = [] then
        \<lparr>exit_code = 0, stdout = [MKeyLoaded True, MFound 0], store = tbl0, trace = []\<rparr>
      else
        (case backfill_loop ev (select_chunks_without_embedding 50 tbl0)
                (start_state tbl0 (length (select_chunks_without_embedding 50 tbl0))) of
           (st, Some e) \<Rightarrow>
             \<lparr>exit_code = 1, stdout = printed st @ [MError e], store = tbl st, trace = calls st\<rparr>
         | (st, None) \<Rightarrow>
             \<lparr>exit_code = 0, stdout = printed st @ [MDone (updated st) (skipped st)],
              store = tbl st, trace = calls st\<rparr>))"
  using assms by (auto simp: embedder_main_def fetch_chunks_without_embedding_def)

text \<open>
  C4, as the spec states it: after a failure the run still returns the accurate updated
  and skipped counts. The code on a table of two chunks, where the update of the second
  fails: one chunk was updated and none skipped, the run exits with status 1, and it
  gives out no totals (the \<open>Done\<close> line is not reached, and the exit status is all that
  \<open>main\<close> returns).
\<close>

theorem backfill_counts_counterexample:
  "exit_code (embedder_main failing_env demo_tbl) = 1 \<and>
   updated_count (embedder_main failing_env demo_tbl) = 1 \<and>
   skipped_count (embedder_main failing_env demo_tbl) = 0 \<and>
   reported_counts (embedder_main failing_env demo_tbl) \<noteq> Some (1, 0)"
  by (simp add: run_defs demo_defs)

text \<open>
  C4, amended. When the chunks before \<open>(cid, ctext)\<close> are processed without error and
  the embedder fails on this chunk, or its store write fails after a successful embed,
  the run stops there: it prints the lines of the chunks before it and then the error,
  leaves the table as those chunks left it, makes no call after the failing one
  (whatever rows follow), and exits with status 1. A store-write failure is reported
  with the chunk id and the underlying error. The counters are accurate at that point
  (they count the lines printed) but are dropped: no totals are returned or printed.
\<close>

theorem backfill_fail_fast:
  assumes key: "api_key ev \<noteq> None" "api_key ev \<noteq> Some []"
    and fetch: "db_fetch_error ev = None"
    and rows: "select_chunks_without_embedding 50 tbl0 = pre @ (cid, ctext) # post"
    and pre: "backfill_loop ev pre (start_state tbl0 (length (pre @ (cid, ctext) # post))) = (st, None)"
    and fail: "backfill_loop ev [(cid, ctext)] st = (st', Some e)"
  shows "embedder_main ev tbl0 =
           \<lparr>exit_code = 1, stdout = printed st @ [MError e], store = tbl st, trace = calls st'\<rparr> \<and>
         reported_counts (embedder_main ev tbl0) = None \<and>
         updated_count (embedder_main ev tbl0) = updated st \<and>
         skipped_count (embedder_main ev tbl0) = skipped st \<and>
         (\<exists>t. ctext = Some t \<and>
            ((embed_text (str_float ev) (embed_content ev) t = Inl e \<and>
              calls st' = calls st @ [EmbedCall t]) \<or>
             (\<exists>vec m. embed_text (str_float ev) (embed_content ev) t = Inr vec \<and>
                db_update_error ev cid vec = Some m \<and> e = DbUpdateFailed cid m \<and>
                calls st' = calls st @ [EmbedCall t, UpdateCall cid vec])))"
proof -
  let ?rows = "pre @ (cid, ctext) # post"
  from backfill_single_failure[OF fail] have
    same: "tbl st' = tbl st" "printed st' = printed st" and
    shape: "\<exists>t. ctext = Some t \<and>
            ((embed_text (str_float ev) (embed_content ev) t = Inl e \<and>
              calls st' = calls st @ [EmbedCall t]) \<or>
             (\<exists>vec m. embed_text (str_float ev) (embed_content ev) t = Inr vec \<and>
                db_update_error ev cid vec = Some m \<and> e = DbUpdateFailed cid m \<and>
                calls st' = calls st @ [EmbedCall t, UpdateCall cid vec]))"
    by blast+
  have "backfill_loop ev ([(cid, ctext)] @ post) st = (st', Some e)"
    unfolding backfill_loop_append using fail by simp
  then have "backfill_loop ev ?rows (start_state tbl0 (length ?rows)) = (st', Some e)"
    unfolding backfill_loop_append[of ev pre] using pre by simp
  with rows same have main:
    "embedder_main ev tbl0 =
       \<lparr>exit_code = 1, stdout = printed st @ [MError e], store = tbl st, trace = calls st'\<rparr>"
    by (simp add: embedder_main_running[OF key fetch])
  have ok: "counters_ok st"
    using backfill_loop_counters[OF counters_ok_start pre] .
  then have "reported_counts (embedder_main ev tbl0) = None"
    "updated_count (embedder_main ev tbl0) = updated st"
    "skipped_count (embedder_main ev tbl0) = skipped st"
    by (simp_all add: main reported_counts_def updated_count_def skipped_count_def
        counters_ok_def done_counts_append)
  with main shape show ?thesis by blast
qed

text \<open>
  The theorem at the table of two chunks where the update of chunk 2 fails, after
  chunk 1 was embedded and written.
\<close>

theorem backfill_fail_fast_witness:
  "embedder_main failing_env demo_tbl =
     \<lparr>exit_code = 1,
      stdout = [MKeyLoaded True, MFound 2, MUpdated 1 2,
                MError (DbUpdateFailed 2 ''connection lost'')],
      store = update_rows 1 [Finite 1, Finite 0] demo_tbl,
      trace = [EmbedCall ''first chunk'', UpdateCall 1 [Finite 1, Finite 0],
               EmbedCall ''second chunk'', UpdateCall 2 [Finite 1, Finite 0]]\<rparr> \<and>
   reported_counts (embedder_main failing_env demo_tbl) = None \<and>
   updated_count (embedder_main failing_env demo_tbl) = 1 \<and>
   skipped_count (embedder_main failing_env demo_tbl) = 0"
proof -
  let ?st = "\<lparr>tbl = update_rows 1 [Finite 1, Finite 0] demo_tbl,
              printed = [MKeyLoaded True, MFound 2, MUpdated 1 2],
              calls = [EmbedCall ''first chunk'', UpdateCall 1 [Finite 1, Finite 0]],
              updated = 1, skipped = 0\<rparr>"
  let ?st' = "?st\<lparr>calls := calls ?st @
                [EmbedCall ''second chunk'', UpdateCall 2 [Finite 1, Finite 0]]\<rparr>"
  have k: "api_key failing_env \<noteq> None" "api_key failing_env \<noteq> Some []"
    "db_fetch_error failing_env = None"
    by (simp_all add: failing_env_def)
  have rows: "select_chunks_without_embedding 50 demo_tbl =
      [(1, Some ''first chunk'')] @ (2, Some ''second chunk'') # []"
    by (simp add: select_chunks_without_embedding_def missing_embedding_def demo_tbl_def)
  have pre: "backfill_loop failing_env [(1, Some ''first chunk'')]
      (start_state demo_tbl
         (length ([(1, Some ''first chunk'')] @ (2, Some ''second chunk'') # []))) = (?st, None)"
    by (simp add: run_defs demo_defs)
  have fail: "backfill_loop failing_env [(2, Some ''second chunk'')] ?st =
      (?st', Some (DbUpdateFailed 2 ''connection lost''))"
    by (simp add: run_defs demo_defs)
  from backfill_fail_fast[OF k rows pre fail] show ?thesis
    by (simp add: reported_counts_def updated_count_def skipped_count_def)
qed

lemma select_none_missing:
  "\<forall>r\<in>set tbl0. \<not> missing_embedding r \<Longrightarrow> select_chunks_without_embedding n tbl0 = []"
  by (simp add: select_chunks_without_embedding_def filter_False)

text \<open>
  An update with a non-empty vector embeds the rows of that id and no other row: what
  \<open>embed_text\<close> returns is never empty, so an updated row no longer counts as missing.
\<close>

lemma update_rows_missing_ids:
  assumes "vec \<noteq> []"
  shows "missing_ids (update_rows cid vec t) = missing_ids t - {cid}"
proof -
  let ?f = "\<lambda>r. if chunk_id r = cid then r\<lparr>embedding := Some (PyList (map PyFloat vec))\<rparr> else r"
  have id: "chunk_id (?f r) = chunk_id r" for r by simp
  have ms: "missing_embedding (?f r) \<longleftrightarrow> missing_embedding r \<and> chunk_id r \<noteq> cid" for r
    using assms by (simp add: missing_embedding_def)
  have "missing_ids (update_rows cid vec t) = chunk_id ` {r \<in> ?f ` set t. missing_embedding r}"
    by (simp add: missing_ids_def update_rows_def)
  also have "\<dots> = {chunk_id (?f r) | r. r \<in> set t \<and> missing_embedding (?f r)}"
    by blast
  also have "\<dots> = {chunk_id r | r. r \<in> set t \<and> missing_embedding r \<and> chunk_id r \<noteq> cid}"
    unfolding ms id ..
  also have "\<dots> = missing_ids t - {cid}"
    by (auto simp: missing_ids_def)
  finally show ?thesis .
qed

lemma backfill_loop_missing_ids:
  "backfill_loop ev rows st = (st', None) \<Longrightarrow> \<forall>x\<in>set rows. \<not> blank_text (snd x) \<Longrightarrow>
   missing_ids (tbl st') = missing_ids (tbl st) - fst ` set rows"
proof (induction rows arbitrary: st)
  case Nil
  then show ?case by simp
next
  case (Cons x rows)
  obtain cid ctext where x: "x = (cid, ctext)" by (cases x)
  from Cons.prems(2) x have nb: "\<not> blank_text ctext" by simp
  from Cons.prems(1) nb obtain vec where
    vec: "embed_text (str_float ev) (embed_content ev) (the ctext) = Inr vec"
    by (cases "embed_text (str_float ev) (embed_content ev) (the ctext)")
       (auto simp: x Let_def)
  from Cons.prems(1) nb vec have upd: "db_update_error ev cid vec = None"
    by (cases "db_update_error ev cid vec") (auto simp: x Let_def update_embedding_def)
  let ?st = "st\<lparr>calls := calls st @ [EmbedCall (the ctext), UpdateCall cid vec],
                 tbl := update_rows cid vec (tbl st),
                 printed := printed st @ [MUpdated cid (length vec)],
                 updated := updated st + 1\<rparr>"
  from Cons.prems(1) nb vec upd have "backfill_loop ev rows ?st = (st', None)"
    by (simp add: x Let_def update_embedding_def)
  from Cons.IH[OF this] Cons.prems(2)
  have "missing_ids (tbl st') = missing_ids (update_rows cid vec (tbl st)) - fst ` set rows"
    by simp
  also have "\<dots> = missing_ids (tbl st) - {cid} - fst ` set rows"
    using update_rows_missing_ids[OF embed_text_nonempty[OF vec]] by simp
  finally show ?case by (auto simp: x)
qed

text \<open>
  A run that exits with status 0 leaves no chunk without an embedding, when at most 50
  chunks lacked one (the limit of the selection) and none of them has a blank text (a
  blank chunk is skipped and stays as it is).
\<close>

lemma backfill_completes:
  assumes fin: "exit_code (embedder_main ev tbl0) = 0"
    and few: "length (filter missing_embedding tbl0) \<le> 50"
    and nonblank: "\<forall>r\<in>set tbl0. missing_embedding r \<longrightarrow> \<not> blank_text (chunk_text r)"
  shows "\<forall>r\<in>set (store (embedder_main ev tbl0)). \<not> missing_embedding r"
proof -
  let ?rows = "select_chunks_without_embedding 50 tbl0"
  have rows: "?rows = map (\<lambda>r. (chunk_id r, chunk_text r))
                        (sort_key chunk_id (filter missing_embedding tbl0))"
    using few by (simp add: select_chunks_without_embedding_def)
  have ids: "fst ` set ?rows = missing_ids tbl0"
    by (auto simp: rows missing_ids_def image_iff)
  have nb: "\<forall>x\<in>set ?rows. \<not> blank_text (snd x)"
    using nonblank by (auto simp: rows)
  from fin have key: "api_key ev \<noteq> None" "api_key ev \<noteq> Some []" "db_fetch_error ev = None"
    by (auto simp: embedder_main_def fetch_chunks_without_embedding_def
        split: if_splits option.splits)
  have "missing_ids (store (embedder_main ev tbl0)) = {}"
  proof (cases "?rows = []")
    case True
    with ids have "missing_ids tbl0 = {}" by simp
    with True show ?thesis
      by (simp add: embedder_main_running[OF key])
  next
    case False
    obtain st r where run: "backfill_loop ev ?rows (start_state tbl0 (length ?rows)) = (st, r)"
      by (cases "backfill_loop ev ?rows (start_state tbl0 (length ?rows))")
    with fin False have r: "r = None"
      by (cases r) (simp_all add: embedder_main_running[OF key])
    from backfill_loop_missing_ids[OF run[unfolded r] nb] ids
    have "missing_ids (tbl st) = {}" by (simp add: start_state_def)
    with False run r show ?thesis
      by (simp add: embedder_main_running[OF key])
  qed
  then show ?thesis by (auto simp: missing_ids_def)
qed

lemma backfill_noop_run:
  assumes "\<forall>r\<in>set tbl0. \<not> missing_embedding r"
  shows "embedder_main ev tbl0 =
     (if api_key ev = None \<or> api_key ev = Some [] then
        \<lparr>exit_code = 1, stdout = [MKeyLoaded False, MMissingKey], store = tbl0, trace = []\<rparr>
      else case db_fetch_error ev of
        Some e \<Rightarrow>
          \<lparr>exit_code = 1, stdout = [MKeyLoaded True, MError (DbFetchFailed e)],
           store = tbl0, trace = []\<rparr>
      | None \<Rightarrow>
          \<lparr>exit_code = 0, stdout = [MKeyLoaded True, MFound 0], store = tbl0, trace = []\<rparr>)"
  using select_none_missing[OF assms, of 50]
  by (simp add: embedder_main_def fetch_chunks_without_embedding_def split: option.splits)

text \<open>
  C9, as the spec states it: the run returns \<open>updated = 0\<close> and \<open>skipped = 0\<close>. The
  code on the table that a completed run left, in which both chunks are embedded: the
  second run exits with status 0 and gives out no counts. \<open>main\<close> returns at
  \<open>if not rows: return 0\<close>, before the counters exist and without a \<open>Done\<close> line.
\<close>

theorem backfill_noop_counts_counterexample:
  "exit_code (embedder_main working_env (store (embedder_main working_env demo_tbl))) = 0 \<and>
   reported_counts (embedder_main working_env (store (embedder_main working_env demo_tbl)))
     \<noteq> Some (0, 0)"
  by (simp add: run_defs demo_defs)

text \<open>
  C9, amended. On a store in which no chunk has an absent or empty embedding, a backfill
  run calls neither the embedder nor the store's update and leaves the table as it is:
  it updates no chunk and skips none. It gives out no counts; with the key set and the
  database reachable it prints that it found 0 chunks and exits with status 0. In
  particular, after a run that exited with status 0 on a table with at most 50
  un-embedded chunks, none of them blank, no un-embedded chunk remains, and a second
  run in the same environment is such a run.
\<close>

theorem backfill_idempotent:
  "((\<forall>r\<in>set tbl0. \<not> missing_embedding r) \<longrightarrow>
      trace (embedder_main ev tbl0) = [] \<and> store (embedder_main ev tbl0) = tbl0 \<and>
      updated_count (embedder_main ev tbl0) = 0 \<and> skipped_count (embedder_main ev tbl0) = 0 \<and>
      reported_counts (embedder_main ev tbl0) = None \<and>
      (api_key ev \<noteq> None \<and> api_key ev \<noteq> Some [] \<and> db_fetch_error ev = None \<longrightarrow>
         embedder_main ev tbl0 =
           \<lparr>exit_code = 0, stdout = [MKeyLoaded True, MFound 0], store = tbl0, trace = []\<rparr>)) \<and>
   (exit_code (embedder_main ev tbl1) = 0 \<and> length (filter missing_embedding tbl1) \<le> 50 \<and>
    (\<forall>r\<in>set tbl1. missing_embedding r \<longrightarrow> \<not> blank_text (chunk_text r)) \<longrightarrow>
      embedder_main ev (store (embedder_main ev tbl1)) =
        \<lparr>exit_code = 0, stdout = [MKeyLoaded True, MFound 0],
         store = store (embedder_main ev tbl1), trace = []\<rparr>)"
proof (intro conjI impI)
  assume a: "\<forall>r\<in>set tbl0. \<not> missing_embedding r"
  show "trace (embedder_main ev tbl0) = []" "store (embedder_main ev tbl0) = tbl0"
    "updated_count (embedder_main ev tbl0) = 0" "skipped_count (embedder_main ev tbl0) = 0"
    "reported_counts (embedder_main ev tbl0) = None"
    by (simp_all add: backfill_noop_run[OF a] updated_count_def skipped_count_def
        reported_counts_def split: option.splits)
  assume "api_key ev \<noteq> None \<and> api_key ev \<noteq> Some [] \<and> db_fetch_error ev = None"
  then show "embedder_main ev tbl0 =
           \<lparr>exit_code = 0, stdout = [MKeyLoaded True, MFound 0], store = tbl0, trace = []\<rparr>"
    by (simp add: backfill_noop_run[OF a])
next
  assume b: "exit_code (embedder_main ev tbl1) = 0 \<and>
    length (filter missing_embedding tbl1) \<le> 50 \<and>
    (\<forall>r\<in>set tbl1. missing_embedding r \<longrightarrow> \<not> blank_text (chunk_text r))"
  then have full: "\<forall>r\<in>set (store (embedder_main ev tbl1)). \<not> missing_embedding r"
    using backfill_completes by blast
  from b have "api_key ev \<noteq> None" "api_key ev \<noteq> Some []" "db_fetch_error ev = None"
    by (auto simp: embedder_main_def fetch_chunks_without_embedding_def
        split: if_splits option.splits)
  then show "embedder_main ev (store (embedder_main ev tbl1)) =
        \<lparr>exit_code = 0, stdout = [MKeyLoaded True, MFound 0],
         store = store (embedder_main ev tbl1), trace = []\<rparr>"
    by (simp add: backfill_noop_run[OF full])
qed

text \<open>
  The theorem at the table of two chunks: the first run embeds both and reports
  \<open>Updated=2 Skipped=0\<close>, the second finds nothing to do and reports no counts.
\<close>

theorem backfill_idempotent_witness:
  "exit_code (embedder_main working_env demo_tbl) = 0 \<and>
   reported_counts (embedder_main working_env demo_tbl) = Some (2, 0) \<and>
   length (filter missing_embedding demo_tbl) = 2 \<and>
   list_all (\<lambda>r. \<not> blank_text (chunk_text r)) demo_tbl \<and>
   list_all (\<lambda>r. \<not> missing_embedding r) (store (embedder_main working_env demo_tbl)) \<and>
   embedder_main working_env (store (embedder_main working_env demo_tbl)) =
     \<lparr>exit_code = 0, stdout = [MKeyLoaded True, MFound 0],
      store = store (embedder_main working_env demo_tbl), trace = []\<rparr> \<and>
   updated_count (embedder_main working_env (store (embedder_main working_env demo_tbl))) = 0 \<and>
   skipped_count (embedder_main working_env (store (embedder_main working_env demo_tbl))) = 0 \<and>
   reported_counts (embedder_main working_env (store (embedder_main working_env demo_tbl))) = None"
proof -
  have run1: "embedder_main working_env demo_tbl =
     \<lparr>exit_code = 0,
      stdout = [MKeyLoaded True, MFound 2, MUpdated 1 2, MUpdated 2 2, MDone 2 0],
      store = update_rows 2 [Finite 1, Finite 0] (update_rows 1 [Finite 1, Finite 0] demo_tbl),
      trace = [EmbedCall ''first chunk'', UpdateCall 1 [Finite 1, Finite 0],
               EmbedCall ''second chunk'', UpdateCall 2 [Finite 1, Finite 0]]\<rparr>"
    by (simp add: run_defs demo_defs)
  have h: "exit_code (embedder_main working_env demo_tbl) = 0"
    "length (filter missing_embedding demo_tbl) = 2"
    "list_all (\<lambda>r. \<not> blank_text (chunk_text r)) demo_tbl"
    "reported_counts (embedder_main working_env demo_tbl) = Some (2, 0)"
    "list_all (\<lambda>r. \<not> missing_embedding r) (store (embedder_main working_env demo_tbl))"
    unfolding run1
    by (simp_all add: demo_tbl_def missing_embedding_def blank_text_def strip_def isspace_def
        reported_counts_def update_rows_def)
  from h(5) have full: "\<forall>r\<in>set (store (embedder_main working_env demo_tbl)). \<not> missing_embedding r"
    by (simp add: list_all_iff)
  from h(3) have nb: "\<forall>r\<in>set demo_tbl. missing_embedding r \<longrightarrow> \<not> blank_text (chunk_text r)"
    by (simp add: list_all_iff)
  have k: "api_key working_env \<noteq> None \<and> api_key working_env \<noteq> Some [] \<and>
      db_fetch_error working_env = None"
    by (simp add: working_env_def)
  from backfill_idempotent[of "store (embedder_main working_env demo_tbl)" working_env demo_tbl]
    full nb h(1,2) k
  have "embedder_main working_env (store (embedder_main working_env demo_tbl)) =
     \<lparr>exit_code = 0, stdout = [MKeyLoaded True, MFound 0],
      store = store (embedder_main working_env demo_tbl), trace = []\<rparr>"
    "updated_count (embedder_main working_env (store (embedder_main working_env demo_tbl))) = 0"
    "skipped_count (embedder_main working_env (store (embedder_main working_env demo_tbl))) = 0"
    "reported_counts (embedder_main working_env (store (embedder_main working_env demo_tbl))) = None"
    by auto
  with h show ?thesis by simp
qed

section \<open>Ranking: length, validity, ties and order of the results\<close>

lemma scored_candidates_Nil [simp]: "scored_candidates A sf q [] = []"
  by (simp add: scored_candidates_def List.map_filter_simps)

lemma scored_candidates_Cons:
  "scored_candidates A sf q (c # cs) =
     (case candidate_vector sf (embedding c) of
        None \<Rightarrow> scored_candidates A sf q cs
      | Some v \<Rightarrow> (the_float (cosine_similarity_in A q v), c) # scored_candidates A sf q cs)"
  by (simp add: scored_candidates_def List.map_filter_simps split: option.splits)

text \<open>
  In a sound arithmetic the scoring loop never raises: it collects the scored
  candidates and counts the rest.
\<close>

lemma score_loop_eq:
  assumes "sound_arith A"
  shows "score_loop A sf q cs (scored, k) =
     Inr (scored @ scored_candidates A sf q cs,
          k + length (filter (\<lambda>c. \<not> valid_embedding sf c) cs))"
proof (induction cs arbitrary: scored k)
  case Nil
  then show ?case by simp
next
  case (Cons c cs)
  show ?case
  proof (cases "candidate_vector sf (embedding c)")
    case None
    then show ?thesis
      by (simp add: Cons.IH scored_candidates_Cons valid_embedding_def)
  next
    case (Some v)
    obtain sc where sc: "cosine_similarity_in A q v = Inr sc"
      using cosine_similarity_in_returns[OF assms, of q v] by blast
    with Some show ?thesis
      by (simp add: Cons.IH scored_candidates_Cons valid_embedding_def the_float_def)
  qed
qed

lemma snd_scored_candidates:
  "map snd (scored_candidates A sf q cs) = filter (valid_embedding sf) cs"
  by (induction cs) (auto simp: scored_candidates_Cons valid_embedding_def split: option.splits)

text \<open>
  \<open><\<close> on floats is irreflexive and asymmetric; \<open>not <\<close> is transitive through a middle
  value that is not NaN.
\<close>

lemma flt_irrefl [simp]: "\<not> flt x x"
  by (cases x) simp_all

lemma flt_asym: "flt x y \<Longrightarrow> \<not> flt y x"
  by (cases x; cases y) simp_all

lemma not_flt_trans: "\<not> flt y x \<Longrightarrow> \<not> flt z y \<Longrightarrow> y \<noteq> NaN \<Longrightarrow> \<not> flt z x"
  by (cases x; cases y; cases z) simp_all

text \<open>The stable descending order permutes the list.\<close>

lemma mset_insort_lt [simp]: "mset (insort_lt key x ys) = add_mset x (mset ys)"
  by (induction ys) auto

lemma mset_sort_lt [simp]: "mset (sort_lt key xs) = mset xs"
  by (induction xs) (simp_all add: sort_lt_def)

lemma mset_sort_reverse [simp]: "mset (sort_reverse key xs) = mset xs"
  by (simp add: sort_reverse_def)

lemma set_sort_lt [simp]: "set (sort_lt key xs) = set xs"
  using mset_sort_lt[of key xs] by (metis set_mset_mset)

text \<open>Stability needs no order at all: an element is never moved past one of its own key.\<close>

lemma filter_insort_lt:
  "filter (\<lambda>z. key z = k) (insort_lt key x ys) =
     (if key x = k then x # filter (\<lambda>z. key z = k) ys else filter (\<lambda>z. key z = k) ys)"
  by (induction ys) auto

lemma sort_lt_stable: "filter (\<lambda>z. key z = k) (sort_lt key xs) = filter (\<lambda>z. key z = k) xs"
  by (induction xs) (simp_all add: sort_lt_def filter_insort_lt)

lemma sorted_insort_lt:
  assumes "sorted_wrt (\<lambda>a b. \<not> flt (key b) (key a)) ys" "\<forall>y\<in>set ys. key y \<noteq> NaN"
  shows "sorted_wrt (\<lambda>a b. \<not> flt (key b) (key a)) (insort_lt key x ys)"
  using assms
proof (induction ys)
  case Nil
  then show ?case by simp
next
  case (Cons y ys)
  show ?case
  proof (cases "flt (key y) (key x)")
    case True
    have "set (insort_lt key x ys) = insert x (set ys)"
      using mset_insort_lt[of key x ys] by (metis set_mset_add_mset_insert set_mset_mset)
    with True Cons show ?thesis by (auto dest: flt_asym)
  next
    case False
    have "\<not> flt (key z) (key x)" if "z \<in> set ys" for z
    proof -
      from that Cons.prems have "\<not> flt (key z) (key y)" "key y \<noteq> NaN" by simp_all
      with False show ?thesis by (rule not_flt_trans)
    qed
    with False Cons.prems show ?thesis by simp
  qed
qed

lemma sorted_sort_lt:
  "\<forall>x\<in>set xs. key x \<noteq> NaN \<Longrightarrow> sorted_wrt (\<lambda>a b. \<not> flt (key b) (key a)) (sort_lt key xs)"
proof (induction xs)
  case Nil
  then show ?case by (simp add: sort_lt_def)
next
  case (Cons x xs)
  then have "sorted_wrt (\<lambda>a b. \<not> flt (key b) (key a)) (sort_lt key xs)" by simp
  moreover have "\<forall>y\<in>set (sort_lt key xs). key y \<noteq> NaN" using Cons.prems by simp
  ultimately have
    "sorted_wrt (\<lambda>a b. \<not> flt (key b) (key a)) (insort_lt key x (sort_lt key xs))"
    by (rule sorted_insort_lt)
  then show ?case by (simp add: sort_lt_def)
qed

lemma sort_reverse_stable:
  "filter (\<lambda>z. key z = k) (sort_reverse key xs) = filter (\<lambda>z. key z = k) xs"
  by (simp add: sort_reverse_def rev_filter[symmetric] sort_lt_stable)

lemma sort_reverse_descending:
  assumes "\<forall>x\<in>set xs. key x \<noteq> NaN"
  shows "descending (map key (sort_reverse key xs))"
proof -
  from assms have "sorted_wrt (\<lambda>a b. \<not> flt (key b) (key a)) (sort_lt key (rev xs))"
    by (intro sorted_sort_lt) simp
  then have "sorted_wrt (\<lambda>a b. fge (key b) (key a)) (sort_lt key (rev xs))"
    using assms by (auto simp: fge_def elim!: sorted_wrt_mono_rel[rotated])
  then show ?thesis
    by (simp add: descending_def sort_reverse_def sorted_wrt_map sorted_wrt_rev)
qed

lemma descending_take: "descending ss \<Longrightarrow> descending (take n ss)"
  unfolding descending_def by (rule sorted_wrt_take)

text \<open>No list of two or more scores with a NaN among them is descending.\<close>

lemma descending_NaN:
  assumes "descending ss" "NaN \<in> set ss"
  shows "length ss \<le> 1"
proof (rule ccontr)
  assume "\<not> length ss \<le> 1"
  then have len: "2 \<le> length ss" by simp
  from assms(2) obtain i where i: "i < length ss" "ss ! i = NaN" by (auto simp: in_set_conv_nth)
  have "\<exists>j. j < length ss \<and> j \<noteq> i"
  proof (cases "i = 0")
    case True
    with len show ?thesis by (intro exI[of _ 1]) simp
  next
    case False
    with len show ?thesis by (intro exI[of _ 0]) auto
  qed
  then obtain j where j: "j < length ss" "j \<noteq> i" by blast
  then consider "i < j" | "j < i" by linarith
  then show False
  proof cases
    case 1
    with assms(1) j i have "fge (ss ! i) (ss ! j)"
      unfolding descending_def sorted_wrt_iff_nth_less by blast
    with i show False by (simp add: fge_def)
  next
    case 2
    with assms(1) j i have "fge (ss ! j) (ss ! i)"
      unfolding descending_def sorted_wrt_iff_nth_less by blast
    with i show False by (simp add: fge_def)
  qed
qed

lemma list_sort_spec_sort_reverse: "list_sort_spec (sort_reverse fst)"
  by (simp add: list_sort_spec_def)

lemma py_slice_prefix: "0 \<le> k \<Longrightarrow> py_slice xs 0 k = take (nat k) xs"
  by (simp add: py_slice_def slice_index_def Let_def min_def)

lemma list_sort_spec_perm:
  assumes "list_sort_spec srt"
  shows "mset (srt xs) = mset xs" "set (srt xs) = set xs" "length (srt xs) = length xs"
proof -
  show m: "mset (srt xs) = mset xs" using assms by (simp add: list_sort_spec_def)
  from m show "set (srt xs) = set xs" by (rule mset_eq_setD)
  from m show "length (srt xs) = length xs" by (rule mset_eq_length)
qed

lemma rank_chunks_eq:
  assumes "0 < top_k" "list_sort_spec srt" "sound_arith A"
  shows "rank_chunks A srt sf q chunks top_k =
     Inr (take (nat top_k) (srt (scored_candidates A sf q chunks)),
          length (filter (\<lambda>c. \<not> valid_embedding sf c) chunks))"
proof (cases "chunks = []")
  case True
  have "srt [] = []" using list_sort_spec_perm(3)[OF assms(2), of "[]"] by simp
  with True show ?thesis by (simp add: rank_chunks_def)
next
  case False
  with assms(1) show ?thesis
    by (simp add: rank_chunks_def score_loop_eq[OF assms(3)] py_slice_prefix)
qed

text \<open>
  C5, as the spec states it: for every query vector and every candidate sequence the
  output is sorted by score descending. The code at the query \<open>[1, 0]\<close> and the
  candidates \<open>[0, 1]\<close>, \<open>[inf, 0]\<close>, \<open>[1, 0]\<close> with \<open>top_k = 3\<close>: the scores are
  \<open>0.0\<close>, \<open>nan\<close> and \<open>1.0\<close> (on these operands every operation is exact), all three
  rows are printed, and no order of them is descending, whatever permutation the sort
  returns.
\<close>

theorem rank_chunks_nan_counterexample:
  "scored_candidates exact_arith (\<lambda>s. None) [Finite 1, Finite 0]
     [demo_row 1 (PyList [PyInt 0, PyInt 1]),
      demo_row 2 (PyList [PyFloat PosInf, PyInt 0]),
      demo_row 3 (PyList [PyInt 1, PyInt 0])] =
     [(Finite 0, demo_row 1 (PyList [PyInt 0, PyInt 1])),
      (NaN, demo_row 2 (PyList [PyFloat PosInf, PyInt 0])),
      (Finite 1, demo_row 3 (PyList [PyInt 1, PyInt 0]))] \<and>
   \<not> (\<exists>srt. list_sort_spec srt \<and>
         (\<exists>results n.
            rank_chunks exact_arith srt (\<lambda>s. None) [Finite 1, Finite 0]
              [demo_row 1 (PyList [PyInt 0, PyInt 1]),
               demo_row 2 (PyList [PyFloat PosInf, PyInt 0]),
               demo_row 3 (PyList [PyInt 1, PyInt 0])] 3 = Inr (results, n) \<and>
            descending (map fst results)))"
proof -
  let ?sf = "\<lambda>s::string. None :: pyfloat option"
  let ?q = "[Finite 1, Finite 0]"
  let ?rows = "[demo_row 1 (PyList [PyInt 0, PyInt 1]),
      demo_row 2 (PyList [PyFloat PosInf, PyInt 0]),
      demo_row 3 (PyList [PyInt 1, PyInt 0])]"
  let ?sc = "[(Finite 0, demo_row 1 (PyList [PyInt 0, PyInt 1])),
      (NaN, demo_row 2 (PyList [PyFloat PosInf, PyInt 0])),
      (Finite 1, demo_row 3 (PyList [PyInt 1, PyInt 0]))]"
  have sc: "scored_candidates exact_arith ?sf ?q ?rows = ?sc"
    by (simp add: scored_candidates_Cons candidate_vector_def demo_row_def
        cosine_similarity_in_def exact_arith_simps the_float_def inf_times_def)
  have "\<not> descending (map fst results)"
    if spec: "list_sort_spec srt"
      and run: "rank_chunks exact_arith srt ?sf ?q ?rows 3 = Inr (results, n)"
    for srt results n
  proof
    assume d: "descending (map fst results)"
    have pos: "(0::int) < 3" by simp
    from run rank_chunks_eq[OF pos spec sound_exact_arith, of ?sf ?q ?rows]
    have "results = take (nat 3) (srt ?sc)" by (simp add: sc)
    moreover have "length (srt ?sc) = 3" "set (srt ?sc) = set ?sc"
      using list_sort_spec_perm[OF spec, of ?sc] by simp_all
    ultimately have "length results = 3" "set results = set ?sc" by simp_all
    then have "length (map fst results) = 3" "NaN \<in> set (map fst results)" by force+
    with descending_NaN[OF d] show False by simp
  qed
  with sc show ?thesis by blast
qed

text \<open>
  C5, amended. For every query vector, every candidate sequence and every \<open>top_k > 0\<close>
  the ranking output has length \<open>min(top_k, number of validly embedded candidates)\<close>
  and consists of validly embedded candidates with their scores: a candidate whose
  embedding is absent, empty or invalid is never in it. Whenever no score is NaN, the
  output is sorted by score descending, and it is the first \<open>top_k\<close> entries of a
  permutation of the scored candidates in which candidates of equal score stand in
  their original input order (no secondary key).
\<close>

theorem rank_chunks_top_k:
  assumes "0 < top_k" "list_sort_spec srt" "sound_arith A"
  shows "\<exists>results.
           rank_chunks A srt sf q chunks top_k =
             Inr (results, length (filter (\<lambda>c. \<not> valid_embedding sf c) chunks)) \<and>
           length results = min (nat top_k) (length (filter (valid_embedding sf) chunks)) \<and>
           set results \<subseteq> set (scored_candidates A sf q chunks) \<and>
           (\<forall>x\<in>set results. valid_embedding sf (snd x)) \<and>
           map snd (scored_candidates A sf q chunks) = filter (valid_embedding sf) chunks \<and>
           ((\<forall>x\<in>set (scored_candidates A sf q chunks). fst x \<noteq> NaN) \<longrightarrow>
              descending (map fst results) \<and>
              (\<exists>ranked. results = take (nat top_k) ranked \<and>
                 mset ranked = mset (scored_candidates A sf q chunks) \<and>
                 descending (map fst ranked) \<and>
                 (\<forall>k. filter (\<lambda>x. fst x = k) ranked =
                      filter (\<lambda>x. fst x = k) (scored_candidates A sf q chunks))))"
proof -
  let ?sc = "scored_candidates A sf q chunks"
  let ?res = "take (nat top_k) (srt ?sc)"
  note perm = list_sort_spec_perm[OF assms(2), of ?sc]
  have run: "rank_chunks A srt sf q chunks top_k =
      Inr (?res, length (filter (\<lambda>c. \<not> valid_embedding sf c) chunks))"
    by (rule rank_chunks_eq[OF assms])
  have "length ?sc = length (filter (valid_embedding sf) chunks)"
    using snd_scored_candidates[of A sf q chunks] by (metis length_map)
  then have len: "length ?res = min (nat top_k) (length (filter (valid_embedding sf) chunks))"
    using perm(3) by simp
  have sub: "set ?res \<subseteq> set ?sc"
    using set_take_subset[of "nat top_k" "srt ?sc"] perm(2) by simp
  have valid: "\<forall>x\<in>set ?res. valid_embedding sf (snd x)"
  proof
    fix x assume "x \<in> set ?res"
    with sub have "snd x \<in> set (map snd ?sc)" by auto
    then show "valid_embedding sf (snd x)" by (simp add: snd_scored_candidates)
  qed
  have ordered: "descending (map fst ?res) \<and>
      (\<exists>ranked. ?res = take (nat top_k) ranked \<and> mset ranked = mset ?sc \<and>
         descending (map fst ranked) \<and>
         (\<forall>k. filter (\<lambda>x. fst x = k) ranked = filter (\<lambda>x. fst x = k) ?sc))"
    if nn: "\<forall>x\<in>set ?sc. fst x \<noteq> NaN"
  proof -
    from assms(2) nn have eq: "srt ?sc = sort_reverse fst ?sc"
      by (simp add: list_sort_spec_def)
    have d: "descending (map fst (srt ?sc))"
      unfolding eq by (rule sort_reverse_descending[OF nn])
    then have "descending (map fst ?res)"
      by (simp add: take_map[symmetric] descending_take)
    moreover have "\<forall>k. filter (\<lambda>x. fst x = k) (srt ?sc) = filter (\<lambda>x. fst x = k) ?sc"
      unfolding eq by (simp add: sort_reverse_stable)
    ultimately show ?thesis using d perm(1) by blast
  qed
  from run len sub valid ordered snd_scored_candidates[of A sf q chunks] show ?thesis
    by blast
qed

text \<open>
  The theorem in the arithmetic without rounding, with the stable descending order as
  the sort, at the spec's example extended: the query \<open>[1, 0]\<close>, the candidates
  \<open>[0, 1]\<close>, \<open>[]\<close> (skipped), \<open>[-1, 0]\<close>, \<open>[1, 0]\<close> and \<open>[0, 2]\<close>, \<open>top_k = 3\<close>. The two
  candidates of score 0 come out in input order.
\<close>

theorem rank_chunks_top_k_witness:
  "(0::int) < 3 \<and> list_sort_spec (sort_reverse fst :: (pyfloat \<times> chunk_row) list \<Rightarrow> _) \<and>
   sound_arith exact_arith \<and>
   rank_chunks exact_arith (sort_reverse fst) (\<lambda>s. None) [Finite 1, Finite 0]
     [demo_row 1 (PyList [PyInt 0, PyInt 1]),
      demo_row 2 (PyList []),
      demo_row 3 (PyList [PyInt (- 1), PyInt 0]),
      demo_row 4 (PyList [PyInt 1, PyInt 0]),
      demo_row 5 (PyList [PyInt 0, PyInt 2])] 3 =
   Inr ([(Finite 1, demo_row 4 (PyList [PyInt 1, PyInt 0])),
         (Finite 0, demo_row 1 (PyList [PyInt 0, PyInt 1])),
         (Finite 0, demo_row 5 (PyList [PyInt 0, PyInt 2]))], 1) \<and>
   descending [Finite 1, Finite 0, Finite 0]"
proof -
  let ?sf = "\<lambda>s::string. None :: pyfloat option"
  let ?q = "[Finite 1, Finite 0]"
  let ?rows = "[demo_row 1 (PyList [PyInt 0, PyInt 1]),
      demo_row 2 (PyList []),
      demo_row 3 (PyList [PyInt (- 1), PyInt 0]),
      demo_row 4 (PyList [PyInt 1, PyInt 0]),
      demo_row 5 (PyList [PyInt 0, PyInt 2])]"
  let ?srt = "sort_reverse fst :: (pyfloat \<times> chunk_row) list \<Rightarrow> _"
  have pos: "(0::int) < 3" by simp
  have ev: "rank_chunks exact_arith ?srt ?sf ?q ?rows 3 =
     Inr ([(Finite 1, demo_row 4 (PyList [PyInt 1, PyInt 0])),
           (Finite 0, demo_row 1 (PyList [PyInt 0, PyInt 1])),
           (Finite 0, demo_row 5 (PyList [PyInt 0, PyInt 2]))], 1)"
    by (simp add: rank_defs exact_arith_simps)
  have sc: "scored_candidates exact_arith ?sf ?q ?rows =
     [(Finite 0, demo_row 1 (PyList [PyInt 0, PyInt 1])),
      (Finite (- 1), demo_row 3 (PyList [PyInt (- 1), PyInt 0])),
      (Finite 1, demo_row 4 (PyList [PyInt 1, PyInt 0])),
      (Finite 0, demo_row 5 (PyList [PyInt 0, PyInt 2]))]"
    by (simp add: scored_candidates_Cons candidate_vector_def demo_row_def
        cosine_similarity_in_def exact_arith_simps the_float_def inf_times_def)
  from rank_chunks_top_k[OF pos list_sort_spec_sort_reverse sound_exact_arith, of ?sf ?q ?rows]
  obtain results where
    r: "rank_chunks exact_arith ?srt ?sf ?q ?rows 3 =
          Inr (results, length (filter (\<lambda>c. \<not> valid_embedding ?sf c) ?rows))"
    and d: "(\<forall>x\<in>set (scored_candidates exact_arith ?sf ?q ?rows). fst x \<noteq> NaN) \<longrightarrow>
              descending (map fst results)"
    by blast
  from d have "descending (map fst results)" by (simp add: sc)
  moreover from r ev have "results =
      [(Finite 1, demo_row 4 (PyList [PyInt 1, PyInt 0])),
       (Finite 0, demo_row 1 (PyList [PyInt 0, PyInt 1])),
       (Finite 0, demo_row 5 (PyList [PyInt 0, PyInt 2]))]"
    by simp
  ultimately have "descending [Finite 1, Finite 0, Finite 0]" by simp
  with ev pos list_sort_spec_sort_reverse sound_exact_arith show ?thesis by blast
qed

end
